theory Spec2Isabelle
  imports Main
begin

section \<open>Strings of bytes\<close>

text \<open>
  A Go \<^verbatim>\<open>string\<close> and a \<^verbatim>\<open>[]byte\<close> are sequences of bytes: here \<open>string\<close>, a list of
  8-bit characters. Go's \<^verbatim>\<open>int\<close> is a 64-bit integer; every integer of this program is
  a status of at most three characters, a body length of at most eight characters or a
  count of lines of one body, so no operation can wrap around and \<open>int\<close> models it.
\<close>

definition asciiSpace :: "char \<Rightarrow> bool" where
  \<comment> \<open>\<^verbatim>\<open>'\t', '\n', '\v', '\f', '\r', ' '\<close>\<close>
  "asciiSpace c \<longleftrightarrow>
     c = CHR 0x09 \<or> c = CHR 0x0A \<or> c = CHR 0x0B \<or> c = CHR 0x0C \<or> c = CHR 0x0D \<or> c = CHR 0x20"

text \<open>
  \<^verbatim>\<open>unicode.IsSpace\<close> and the table \<^verbatim>\<open>space\<close> of \<^verbatim>\<open>fmt\<close> hold the same characters: the six of
  ASCII, and U+0085, U+00A0, U+1680, U+2000 to U+200A, U+2028, U+2029, U+202F, U+205F and
  U+3000, which are two or three bytes in UTF-8. \<open>space_width s\<close> is the number of bytes of
  the white space character \<open>s\<close> starts with, and 0 when it starts with none. A valid
  encoding holds no lead byte after its first byte and an invalid byte is decoded alone,
  so Go's decoder starts a character at every lead byte: looking for these encodings at
  each position finds the white space Go finds.
\<close>

definition space_E2 :: "string \<Rightarrow> bool" where
  \<comment> \<open>the two bytes after \<^verbatim>\<open>0xE2\<close> in U+2000..U+200A, U+2028, U+2029, U+202F, U+205F\<close>
  "space_E2 cs \<longleftrightarrow>
     (case cs of
        a # b # _ \<Rightarrow>
          (a = CHR 0x80 \<and>
             ((0x80 \<le> (of_char b :: nat) \<and> (of_char b :: nat) \<le> 0x8A)
              \<or> b = CHR 0xA8 \<or> b = CHR 0xA9 \<or> b = CHR 0xAF))
          \<or> (a = CHR 0x81 \<and> b = CHR 0x9F)
      | _ \<Rightarrow> False)"

fun space_width :: "string \<Rightarrow> nat" where
  "space_width [] = 0"
| "space_width (c # cs) =
     (if asciiSpace c then 1
      else if c = CHR 0xC2 \<and> (take 1 cs = [CHR 0x85] \<or> take 1 cs = [CHR 0xA0]) then 2
      else if c = CHR 0xE1 \<and> take 2 cs = [CHR 0x9A, CHR 0x80] then 3
      else if c = CHR 0xE2 \<and> space_E2 cs then 3
      else if c = CHR 0xE3 \<and> take 2 cs = [CHR 0x80, CHR 0x80] then 3
      else 0)"

fun field_prefix :: "string \<Rightarrow> string" where
  \<comment> \<open>the bytes before the first white space character\<close>
  "field_prefix [] = []"
| "field_prefix (c # cs) = (if 0 < space_width (c # cs) then [] else c # field_prefix cs)"

text \<open>\<^verbatim>\<open>strings.Fields\<close>: the maximal runs of characters that are not white space.\<close>

function Fields :: "string \<Rightarrow> string list" where
  "Fields s =
     (if s = [] then []
      else if 0 < space_width s then Fields (drop (space_width s) s)
      else field_prefix s # Fields (drop (length (field_prefix s)) s))"
  by pat_completeness auto
termination
proof (relation "measure length")
  show "wf (measure length)" by simp
next
  fix s :: string
  assume "s \<noteq> []" and "0 < space_width s"
  then show "(drop (space_width s) s, s) \<in> measure length" by simp
next
  fix s :: string
  assume "s \<noteq> []" and "\<not> 0 < space_width s"
  then have "field_prefix s \<noteq> []" by (cases s) auto
  with \<open>s \<noteq> []\<close> show "(drop (length (field_prefix s)) s, s) \<in> measure length" by simp
qed

declare Fields.simps [simp del]

definition HasPrefix :: "string \<Rightarrow> string \<Rightarrow> bool" where
  \<comment> \<open>\<^verbatim>\<open>len(s) >= len(prefix) && s[:len(prefix)] == prefix\<close>\<close>
  "HasPrefix s p \<longleftrightarrow> length p \<le> length s \<and> take (length p) s = p"

subsection \<open>Valid UTF-8\<close>

text \<open>
  \<^verbatim>\<open>utf8.ValidString\<close>: the text is a sequence of encodings of characters. \<open>rune_width s\<close>
  is the number of bytes of the encoding \<open>s\<close> starts with, and 0 when it starts with none:
  a byte of ASCII; a lead byte \<^verbatim>\<open>C2..DF\<close> and one continuation byte; \<^verbatim>\<open>E0..EF\<close> and two;
  \<^verbatim>\<open>F0..F4\<close> and three, where the first continuation byte is at least \<^verbatim>\<open>A0\<close> after \<^verbatim>\<open>E0\<close>,
  at most \<^verbatim>\<open>9F\<close> after \<^verbatim>\<open>ED\<close>, at least \<^verbatim>\<open>90\<close> after \<^verbatim>\<open>F0\<close> and at most \<^verbatim>\<open>8F\<close> after
  \<^verbatim>\<open>F4\<close>.
\<close>

definition in_range :: "char \<Rightarrow> nat \<Rightarrow> nat \<Rightarrow> bool" where
  "in_range b lo hi \<longleftrightarrow> lo \<le> of_char b \<and> (of_char b :: nat) \<le> hi"

fun rune_width :: "string \<Rightarrow> nat" where
  "rune_width [] = 0"
| "rune_width (b0 # bs) =
     (if in_range b0 0x00 0x7F then 1
      else if in_range b0 0xC2 0xDF then
        (case bs of
           b1 # _ \<Rightarrow> if in_range b1 0x80 0xBF then 2 else 0
         | _ \<Rightarrow> 0)
      else if in_range b0 0xE0 0xEF then
        (case bs of
           b1 # b2 # _ \<Rightarrow>
             if in_range b1 (if b0 = CHR 0xE0 then 0xA0 else 0x80) (if b0 = CHR 0xED then 0x9F else 0xBF)
                \<and> in_range b2 0x80 0xBF
             then 3 else 0
         | _ \<Rightarrow> 0)
      else if in_range b0 0xF0 0xF4 then
        (case bs of
           b1 # b2 # b3 # _ \<Rightarrow>
             if in_range b1 (if b0 = CHR 0xF0 then 0x90 else 0x80) (if b0 = CHR 0xF4 then 0x8F else 0xBF)
                \<and> in_range b2 0x80 0xBF \<and> in_range b3 0x80 0xBF
             then 4 else 0
         | _ \<Rightarrow> 0)
      else 0)"

function ValidString :: "string \<Rightarrow> bool" where
  "ValidString s =
     (if s = [] then True
      else if rune_width s = 0 then False
      else ValidString (drop (rune_width s) s))"
  by pat_completeness auto
termination
  by (relation "measure length") auto

declare ValidString.simps [simp del]

subsection \<open>The lines of a body\<close>

text \<open>
  \<^verbatim>\<open>bufio.Scanner\<close> with its default split function \<^verbatim>\<open>ScanLines\<close> over a
  \<^verbatim>\<open>strings.Reader\<close>: each token is a line without its end-of-line marker (a newline, or a
  carriage return and a newline); a last line with no newline is a token when it is not
  empty. The scanner's buffer grows to \<^verbatim>\<open>MaxScanTokenSize\<close> bytes; when it is full and
  holds no newline \<^verbatim>\<open>Scan\<close> returns false (\<^verbatim>\<open>ErrTooLong\<close>) and the loop over the lines
  ends there, as at the end of the body.
\<close>

definition MaxScanTokenSize :: nat where
  "MaxScanTokenSize = 64 * 1024"

definition dropCR :: "string \<Rightarrow> string" where
  "dropCR d = (if d \<noteq> [] \<and> last d = CHR 0x0D then butlast d else d)"

function scan_lines :: "string \<Rightarrow> string list" where
  "scan_lines d =
     (if d = [] then []
      else let line = takeWhile (\<lambda>c. c \<noteq> CHR 0x0A) d in
        if MaxScanTokenSize \<le> length line then []
        else dropCR line # scan_lines (drop (length line + 1) d))"
  by pat_completeness auto
termination
  by (relation "measure length") auto

declare scan_lines.simps [simp del]

section \<open>The listing parser and aggregator\<close>

datatype panic =
  IndexOutOfRange          \<comment> \<open>\<^verbatim>\<open>fields[i]\<close> with \<^verbatim>\<open>i >= len(fields)\<close>\<close>
| MakeSliceLenOutOfRange   \<comment> \<open>\<^verbatim>\<open>make([]byte, n)\<close> with \<^verbatim>\<open>n < 0\<close>\<close>
| SliceBoundsOutOfRange    \<comment> \<open>\<^verbatim>\<open>buf[0:n]\<close> with \<^verbatim>\<open>n < 0\<close>\<close>
| InvalidLabelValue        \<comment> \<open>\<^verbatim>\<open>With(labels)\<close> with a label value that is not valid UTF-8\<close>

definition index :: "'a list \<Rightarrow> nat \<Rightarrow> panic + 'a" where
  \<comment> \<open>\<^verbatim>\<open>xs[i]\<close> of a slice\<close>
  "index xs i = (if i < length xs then Inr (xs ! i) else Inl IndexOutOfRange)"

text \<open>
  \<^verbatim>\<open>directorRegexp\<close> is a compiled pattern of the package \<^verbatim>\<open>regexp\<close>, or nil. A pattern is
  taken as a parameter, as what it finds in a text: nothing (\<open>None\<close>) when it does not
  match, and otherwise the submatches of the leftmost match, which are the matched text
  and, for each capture group, the text it captured, or \<open>None\<close> when the group took no
  part in the match. \<^verbatim>\<open>FindStringSubmatch\<close> returns nil or the submatches as strings: a
  group that took no part in the match gives the empty string.
\<close>

type_synonym regexp = "string \<Rightarrow> string option list option"

definition FindStringSubmatch :: "regexp \<Rightarrow> string \<Rightarrow> string list option" where
  "FindStringSubmatch re s =
     (case re s of
        None \<Rightarrow> None
      | Some subs \<Rightarrow> Some (map (\<lambda>sub. case sub of None \<Rightarrow> [] | Some x \<Rightarrow> x) subs))"

text \<open>
  The variables of one cycle (lines 203 to 212). A Go map read at a key it does not hold
  gives zero. \<^verbatim>\<open>labelall\<close> is a map whose values are all 1: its keys are kept, each once.
\<close>

record counts =
  healthy :: int
  sick :: int
  labelhealthy :: "string \<rightharpoonup> int"
  labelsick :: "string \<rightharpoonup> int"
  labelall :: "string list"

definition get0 :: "(string \<rightharpoonup> int) \<Rightarrow> string \<Rightarrow> int" where
  "get0 m k = (case m k of None \<Rightarrow> 0 | Some v \<Rightarrow> v)"

definition incr :: "(string \<rightharpoonup> int) \<Rightarrow> string \<Rightarrow> (string \<rightharpoonup> int)" where
  \<comment> \<open>\<^verbatim>\<open>m[k]++\<close>\<close>
  "incr m k = m(k \<mapsto> get0 m k + 1)"

definition counts0 :: counts where
  "counts0 = \<lparr>healthy = 0, sick = 0, labelhealthy = Map.empty, labelsick = Map.empty, labelall = []\<rparr>"

definition director_label :: "regexp \<Rightarrow> string \<Rightarrow> string" where
  \<comment> \<open>lines 223 to 228\<close>
  "director_label re name =
     (case FindStringSubmatch re name of
        Some m \<Rightarrow> if 1 < length m then m ! 1 else ''unknown''
      | None \<Rightarrow> ''unknown'')"

text \<open>
  The body of the loop over the lines (lines 215 to 241). \<^verbatim>\<open>&&\<close> evaluates its right
  operand only when the left one is true, so \<^verbatim>\<open>fields[2]\<close> is read only when
  \<^verbatim>\<open>fields[1]\<close> is not \<^verbatim>\<open>sick\<close>.
\<close>

definition is_healthy :: "string list \<Rightarrow> panic + bool" where
  \<comment> \<open>\<^verbatim>\<open>fields[1] != "sick" && fields[2] == "Healthy"\<close>\<close>
  "is_healthy flds =
     (case index flds 1 of
        Inl e \<Rightarrow> Inl e
      | Inr f1 \<Rightarrow>
          if f1 \<noteq> ''sick'' then
            (case index flds 2 of Inl e \<Rightarrow> Inl e | Inr f2 \<Rightarrow> Inr (f2 = ''Healthy''))
          else Inr False)"

definition scan_line :: "regexp option \<Rightarrow> counts \<Rightarrow> string \<Rightarrow> panic + counts" where
  "scan_line directorRegexp a t =
     (if HasPrefix t ''Backend name '' then Inr a
      else
        let flds = Fields t in
        (case directorRegexp of
           Some re \<Rightarrow>
             (case index flds 0 of
                Inl e \<Rightarrow> Inl e
              | Inr f0 \<Rightarrow>
                  let lbl = director_label re f0;
                      a1 = a\<lparr>labelall := List.insert lbl (labelall a)\<rparr>
                  in (case is_healthy flds of
                        Inl e \<Rightarrow> Inl e
                      | Inr True \<Rightarrow> Inr (a1\<lparr>labelhealthy := incr (labelhealthy a1) lbl\<rparr>)
                      | Inr False \<Rightarrow> Inr (a1\<lparr>labelsick := incr (labelsick a1) lbl\<rparr>)))
         | None \<Rightarrow>
             (case is_healthy flds of
                Inl e \<Rightarrow> Inl e
              | Inr True \<Rightarrow> Inr (a\<lparr>healthy := healthy a + 1\<rparr>)
              | Inr False \<Rightarrow> Inr (a\<lparr>sick := sick a + 1\<rparr>))))"

fun scan_loop :: "regexp option \<Rightarrow> counts \<Rightarrow> string list \<Rightarrow> panic + counts" where
  "scan_loop re a [] = Inr a"
| "scan_loop re a (t # ts) =
     (case scan_line re a t of Inl e \<Rightarrow> Inl e | Inr a' \<Rightarrow> scan_loop re a' ts)"

definition aggregate :: "regexp option \<Rightarrow> string \<Rightarrow> panic + counts" where
  \<comment> \<open>lines 202 to 242, on the body of the response\<close>
  "aggregate re resp = scan_loop re counts0 (scan_lines resp)"

section \<open>The gauges\<close>

text \<open>
  \<^verbatim>\<open>prombackends\<close> is a vector of gauges: one gauge for each list of label values, the
  values of \<^verbatim>\<open>promlabels\<close> in their order (the state, or the state and the director).
  \<^verbatim>\<open>Reset\<close> deletes every gauge. \<^verbatim>\<open>With(labels)\<close> panics when a label value is not valid
  UTF-8, before it changes the vector; otherwise it gives the gauge of the labels, which
  it creates when the vector does not hold it, and \<^verbatim>\<open>Set(v)\<close> sets it. The value is
  \<^verbatim>\<open>float64\<close> of a count, which is exact for a count of lines; it is kept as the integer.

  The vector is a state: each operation returns the vector as it leaves it, and the panic
  it ended with, if any.
\<close>

type_synonym gauges = "string list \<rightharpoonup> int"

definition Reset :: "gauges \<Rightarrow> gauges" where
  "Reset g = Map.empty"

definition Set_gauge :: "gauges \<Rightarrow> string list \<Rightarrow> int \<Rightarrow> gauges \<times> panic option" where
  \<comment> \<open>\<^verbatim>\<open>With(labels).Set(v)\<close>\<close>
  "Set_gauge g lvs v =
     (if list_all ValidString lvs then (g(lvs \<mapsto> v), None) else (g, Some InvalidLabelValue))"

text \<open>
  The loop of lines 249 to 252 over the keys of \<^verbatim>\<open>labelall\<close>. Go does not fix the order
  of a range over a map; the model takes the keys in the order of its list. The keys are
  different, so when no key panics the gauges written are the same in any order. A panic
  ends the program whichever key it comes from; the gauges written before it depend on
  the order.
\<close>

fun publish_labels :: "counts \<Rightarrow> string list \<Rightarrow> gauges \<Rightarrow> gauges \<times> panic option" where
  "publish_labels a [] g = (g, None)"
| "publish_labels a (k # ks) g =
     (case Set_gauge g [''healthy'', k] (get0 (labelhealthy a) k) of
        (g1, Some p) \<Rightarrow> (g1, Some p)
      | (g1, None) \<Rightarrow>
          (case Set_gauge g1 [''sick'', k] (get0 (labelsick a) k) of
             (g2, Some p) \<Rightarrow> (g2, Some p)
           | (g2, None) \<Rightarrow> publish_labels a ks g2))"

text \<open>Lines 244 to 256.\<close>

definition publish :: "bool \<Rightarrow> regexp option \<Rightarrow> counts \<Rightarrow> gauges \<Rightarrow> gauges \<times> panic option" where
  "publish resetBackends directorRegexp a g =
     (let g0 = (if resetBackends then Reset g else g) in
      case directorRegexp of
        Some re \<Rightarrow> publish_labels a (labelall a) g0
      | None \<Rightarrow>
          (case Set_gauge g0 [''healthy''] (healthy a) of
             (g1, Some p) \<Rightarrow> (g1, Some p)
           | (g1, None) \<Rightarrow> Set_gauge g1 [''sick''] (sick a)))"

section \<open>The header of a response\<close>

text \<open>
  \<^verbatim>\<open>fmt.Fscanf(v.conn, "%03d %8d\n", &status, &length)\<close> reads the connection one
  character at a time and can put one character back. The functions below follow
  \<^verbatim>\<open>doScanf\<close> of \<^verbatim>\<open>fmt/scan.go\<close> on this format, over the bytes still to come: each returns
  the input that remains, or the error that ends the scan. White space is the table of
  \<open>space_width\<close>; a byte of another character outside ASCII is never a digit, a sign or
  white space, so wherever one is read the scan fails, whatever its width.
\<close>

datatype scan_error =
  UnexpectedNewline    \<comment> \<open>\<^verbatim>\<open>unexpected newline\<close>\<close>
| UnexpectedEOF        \<comment> \<open>\<^verbatim>\<open>io.EOF\<close>, from \<^verbatim>\<open>notEOF\<close>\<close>
| ExpectedInteger      \<comment> \<open>\<^verbatim>\<open>expected integer\<close>\<close>
| ExpectedSpace        \<comment> \<open>\<^verbatim>\<open>expected space in input to match format\<close>\<close>
| NewlineInInput       \<comment> \<open>\<^verbatim>\<open>newline in input does not match format\<close>\<close>
| NewlineInFormat      \<comment> \<open>\<^verbatim>\<open>newline in format does not match input\<close>\<close>

definition newline :: char where
  "newline = CHR 0x0A"

definition blank_width :: "string \<Rightarrow> nat" where
  \<comment> \<open>white space other than a newline: \<^verbatim>\<open>isSpace(r) && r != '\n'\<close>\<close>
  "blank_width s = (if take 1 s = [newline] then 0 else space_width s)"

function skip_blanks :: "string \<Rightarrow> string" where
  "skip_blanks s = (if 0 < blank_width s then skip_blanks (drop (blank_width s) s) else s)"
  by pat_completeness auto
termination
proof (relation "measure length")
  show "wf (measure length)" by simp
next
  fix s :: string
  assume "0 < blank_width s"
  then have "s \<noteq> []" by (auto simp: blank_width_def)
  with \<open>0 < blank_width s\<close> show "(drop (blank_width s) s, s) \<in> measure length" by simp
qed

declare skip_blanks.simps [simp del]

definition SkipSpace :: "string \<Rightarrow> scan_error + string" where
  \<comment> \<open>\<^verbatim>\<open>SkipSpace\<close>, where a newline is not white space (\<^verbatim>\<open>nlIsSpace\<close> is false in \<^verbatim>\<open>Fscanf\<close>)\<close>
  "SkipSpace s =
     (let s' = skip_blanks s in
      if take 1 s' = [newline] then Inl UnexpectedNewline else Inr s')"

definition is_digit :: "char \<Rightarrow> bool" where
  "is_digit c \<longleftrightarrow> (of_char CHR ''0'' :: nat) \<le> of_char c \<and> (of_char c :: nat) \<le> of_char CHR ''9''"

definition digit_val :: "char \<Rightarrow> int" where
  "digit_val c = int (of_char c) - int (of_char CHR ''0'')"

fun atoi :: "int \<Rightarrow> string \<Rightarrow> int" where
  \<comment> \<open>the value of a string of decimal digits, after the digits of value \<open>n\<close>\<close>
  "atoi n [] = n"
| "atoi n (c # cs) = atoi (n * 10 + digit_val c) cs"

definition ParseInt :: "string \<Rightarrow> string \<Rightarrow> int" where
  \<comment> \<open>\<^verbatim>\<open>strconv.ParseInt(tok, 10, 64)\<close> on a token of a sign, or none, and at most eight digits\<close>
  "ParseInt sg ds = (if sg = ''-'' then - atoi 0 ds else atoi 0 ds)"

text \<open>
  \<^verbatim>\<open>scanInt\<close> for the verb \<^verbatim>\<open>%d\<close> with a width: \<^verbatim>\<open>notEOF\<close>, an optional sign, then
  \<^verbatim>\<open>scanNumber\<close>, which wants a digit and takes the digits that follow; the sign and the
  digits are at most \<open>maxWid\<close> characters. (The \<^verbatim>\<open>SkipSpace\<close> at the start of \<^verbatim>\<open>scanInt\<close>
  finds nothing to skip: \<^verbatim>\<open>doScanf\<close> has just called it.)
\<close>

definition scanInt :: "nat \<Rightarrow> string \<Rightarrow> scan_error + (int \<times> string)" where
  "scanInt maxWid s =
     (case s of
        [] \<Rightarrow> Inl UnexpectedEOF
      | c # cs \<Rightarrow>
          let (sg, s1, wid) =
                (if c = CHR ''+'' \<or> c = CHR ''-'' then ([c], cs, maxWid - 1) else ([], s, maxWid));
              ds = takeWhile is_digit (take wid s1)
          in if s1 = [] \<or> wid = 0 then Inl UnexpectedEOF
             else if ds = [] then Inl ExpectedInteger
             else Inr (ParseInt sg ds, drop (length ds) s1))"

text \<open>
  \<^verbatim>\<open>advance\<close> on the space of the format: the input has white space there (one or more,
  and no newline), or has ended.
\<close>

definition advance_space :: "string \<Rightarrow> scan_error + string" where
  "advance_space s =
     (if s = [] then Inr []
      else if take 1 s = [newline] then Inl NewlineInInput
      else if space_width s = 0 then Inl ExpectedSpace
      else Inr (skip_blanks s))"

text \<open>
  \<^verbatim>\<open>advance\<close> on the newline that ends the format: white space if any, then a newline or
  the end of the input.
\<close>

definition advance_newline :: "string \<Rightarrow> scan_error + string" where
  "advance_newline s =
     (case skip_blanks s of
        [] \<Rightarrow> Inr []
      | c # cs \<Rightarrow> if c = newline then Inr cs else Inl NewlineInFormat)"

definition Fscanf_header :: "string \<Rightarrow> scan_error + (int \<times> int \<times> string)" where
  \<comment> \<open>the status, the length and the input after the header\<close>
  "Fscanf_header s0 =
     (case SkipSpace s0 of Inl e \<Rightarrow> Inl e | Inr s1 \<Rightarrow>
      case scanInt 3 s1 of Inl e \<Rightarrow> Inl e | Inr (status, s2) \<Rightarrow>
      case advance_space s2 of Inl e \<Rightarrow> Inl e | Inr s3 \<Rightarrow>
      case SkipSpace s3 of Inl e \<Rightarrow> Inl e | Inr s4 \<Rightarrow>
      case scanInt 8 s4 of Inl e \<Rightarrow> Inl e | Inr (len, s5) \<Rightarrow>
      case advance_newline s5 of Inl e \<Rightarrow> Inl e | Inr s6 \<Rightarrow>
      Inr (status, len, s6))"

text \<open>
  Modelled from the spec: the encoder of a header, which is the peer's and not in this
  repository. It is \<^verbatim>\<open>fmt.Sprintf("%03d %8d\n", status, length)\<close>: the status in decimal,
  padded with zeros after its sign to three characters; a space; the length in decimal,
  padded with spaces on its left to eight characters; a newline.
\<close>

function digits_of :: "nat \<Rightarrow> string" where
  "digits_of n =
     (if n < 10 then [char_of (of_char CHR ''0'' + n)]
      else digits_of (n div 10) @ [char_of (of_char CHR ''0'' + n mod 10)])"
  by pat_completeness auto
termination
  by (relation "measure id") auto

declare digits_of.simps [simp del]

definition Sprintf_03d :: "int \<Rightarrow> string" where
  "Sprintf_03d n =
     (let sg = (if n < 0 then ''-'' else ''''); ds = digits_of (nat \<bar>n\<bar>)
      in sg @ replicate (3 - length sg - length ds) CHR ''0'' @ ds)"

definition Sprintf_8d :: "int \<Rightarrow> string" where
  "Sprintf_8d n =
     (let sg = (if n < 0 then ''-'' else ''''); ds = digits_of (nat \<bar>n\<bar>)
      in replicate (8 - length sg - length ds) CHR '' '' @ sg @ ds)"

definition Sprintf_header :: "int \<Rightarrow> int \<Rightarrow> string" where
  "Sprintf_header status len = Sprintf_03d status @ '' '' @ Sprintf_8d len @ [newline]"

section \<open>The protocol client\<close>

text \<open>
  The connection, as its future: \<open>rd\<close> is the data the peer sends before it closes the
  connection, in the pieces in which \<^verbatim>\<open>Read\<close> finds it (a \<^verbatim>\<open>Read\<close> gives the bytes that
  have arrived, not more than asked and at least one, and waits when there is none);
  \<open>writable\<close> is the number of calls of \<^verbatim>\<open>Write\<close> that succeed before the connection
  breaks. A peer that neither sends nor closes makes a read wait forever; the model
  holds no such connection.
\<close>

record conn =
  rd :: "string list"
  writable :: nat

definition conn_Read :: "conn \<Rightarrow> nat \<Rightarrow> (string \<times> conn) option" where
  \<comment> \<open>\<^verbatim>\<open>v.conn.Read(buf)\<close> with \<^verbatim>\<open>len(buf) = n\<close>: the bytes read, or \<open>None\<close> for an error
     (the end of the data). A read of no byte returns at once, with no error.\<close>
  "conn_Read v n =
     (if n = 0 then Some ([], v)
      else case dropWhile (\<lambda>x. x = []) (rd v) of
             [] \<Rightarrow> None
           | x # xs \<Rightarrow> Some (take n x, v\<lparr>rd := drop n x # xs\<rparr>))"

fun rd_drop :: "nat \<Rightarrow> string list \<Rightarrow> string list" where
  \<comment> \<open>the pieces after their first \<open>n\<close> bytes\<close>
  "rd_drop n [] = []"
| "rd_drop n (x # xs) = (if n < length x then drop n x # xs else rd_drop (n - length x) xs)"

definition conn_Fscanf :: "conn \<Rightarrow> scan_error + (int \<times> int \<times> conn)" where
  \<comment> \<open>\<^verbatim>\<open>Fscanf\<close> on the connection: it reads the bytes it scans, whatever their pieces\<close>
  "conn_Fscanf v =
     (case Fscanf_header (concat (rd v)) of
        Inl e \<Rightarrow> Inl e
      | Inr (status, len, rest) \<Rightarrow>
          Inr (status, len, v\<lparr>rd := rd_drop (length (concat (rd v)) - length rest) (rd v)\<rparr>))"

text \<open>
  \<^verbatim>\<open>ReadResponse\<close> returns \<^verbatim>\<open>(-1, nil)\<close> (\<open>NoResponse\<close>), or a code and a body. After
  \<^verbatim>\<open>(-1, nil)\<close> every caller gives the connection up, so no state of it is kept.
  \<^verbatim>\<open>Fscanf\<close> gives two values or an error on this format, so the test of \<^verbatim>\<open>headers\<close> never
  fails by itself.
\<close>

datatype response =
  Panicked panic
| NoResponse
| Response int string conn

definition ReadResponse :: "conn \<Rightarrow> response" where
  "ReadResponse v =
     (case conn_Fscanf v of
        Inl e \<Rightarrow> NoResponse
      | Inr (status, len, v1) \<Rightarrow>
          if len + 1 < 0 then Panicked MakeSliceLenOutOfRange
          else
            (case conn_Read v1 (nat (len + 1)) of
               None \<Rightarrow> NoResponse
             | Some (buf, v2) \<Rightarrow>
                 if int (length buf) \<noteq> len + 1 then NoResponse
                 else if len < 0 then Panicked SliceBoundsOutOfRange
                 else Response status (take (nat len) buf) v2))"

subsection \<open>Sending a command\<close>

text \<open>
  What the program does to the world, in order: it sleeps, dials, writes a line on the
  connection, gets a code from \<^verbatim>\<open>ReadResponse\<close> (\<open>- 1\<close> with \<^verbatim>\<open>nil\<close>), closes the
  connection.
\<close>

datatype event =
  Sleep int            \<comment> \<open>\<^verbatim>\<open>time.Sleep\<close> of so many seconds\<close>
| Dial bool            \<comment> \<open>\<^verbatim>\<open>net.DialTCP\<close>, and whether it gave a connection\<close>
| Write string bool    \<comment> \<open>\<^verbatim>\<open>conn.Write\<close> of the bytes, and whether it succeeded\<close>
| Recv int             \<comment> \<open>the code \<^verbatim>\<open>ReadResponse\<close> returned\<close>
| Close                \<comment> \<open>\<^verbatim>\<open>conn.Close\<close> of line 262\<close>

fun Join :: "string list \<Rightarrow> string \<Rightarrow> string" where
  \<comment> \<open>\<^verbatim>\<open>strings.Join\<close>\<close>
  "Join [] sep = []"
| "Join [x] sep = x"
| "Join (x # y # ys) sep = x @ sep @ Join (y # ys) sep"

datatype io_error = WriteError

definition Send :: "conn \<Rightarrow> string \<Rightarrow> string list \<Rightarrow> event \<times> io_error option \<times> conn" where
  \<comment> \<open>the write, the error returned (\<open>None\<close> is \<^verbatim>\<open>nil\<close>) and the connection\<close>
  "Send v str args =
     (let body = Join (str # args) '' '' @ [newline] in
      if 0 < writable v then (Write body True, None, v\<lparr>writable := writable v - 1\<rparr>)
      else (Write body False, Some WriteError, v))"

text \<open>
  \<^verbatim>\<open>CommandForSuccess\<close> returns a boolean: here \<open>Inr None\<close> for false, after which the
  caller gives the connection up, and \<open>Inr (Some v)\<close> for true, with the connection after
  the response. \<open>Inl\<close> is a panic of \<^verbatim>\<open>ReadResponse\<close>.
\<close>

definition CommandForSuccess ::
  "conn \<Rightarrow> string \<Rightarrow> string list \<Rightarrow> event list \<times> (panic + conn option)" where
  "CommandForSuccess v cmd args =
     (case Send v cmd args of
        (ev, Some err, v1) \<Rightarrow> ([ev], Inr None)
      | (ev, None, v1) \<Rightarrow>
          (case ReadResponse v1 of
             Panicked p \<Rightarrow> ([ev], Inl p)
           | NoResponse \<Rightarrow> ([ev, Recv (- 1)], Inr None)
           | Response code resp v2 \<Rightarrow>
               ([ev, Recv code], Inr (if code = 200 then Some v2 else None))))"

section \<open>The poll loop and the supervisor\<close>

text \<open>
  The configuration \<^verbatim>\<open>main\<close> reads: the secret (the bytes of the file), the pattern, the
  two flags. \<^verbatim>\<open>sha256.Sum256\<close> is taken as a parameter of the model, with them.
\<close>

record config =
  secret :: string
  sha256 :: "string \<Rightarrow> string"
  directorRegexp :: "regexp option"
  resetBackends :: bool
  varnishInterval :: int

definition hextable :: string where
  "hextable = ''0123456789abcdef''"

definition EncodeToString :: "string \<Rightarrow> string" where
  \<comment> \<open>\<^verbatim>\<open>hex.EncodeToString\<close>\<close>
  "EncodeToString src =
     concat (map (\<lambda>b. [hextable ! (of_char b div 16), hextable ! (of_char b mod 16)]) src)"

text \<open>
  Lines 173 to 184, on a new connection: the greeting, and the command \<^verbatim>\<open>auth\<close>.
  \<^verbatim>\<open>strings.Split(*resp, "\n")[0]\<close> is the text before the first newline of the body.
  The result is the connection when the authentication succeeded, \<open>Inr None\<close> when the
  loop goes on to the next connection (\<^verbatim>\<open>continue\<close>).
\<close>

definition authenticate :: "config \<Rightarrow> conn \<Rightarrow> event list \<times> (panic + conn option)" where
  "authenticate cfg v =
     (case ReadResponse v of
        Panicked p \<Rightarrow> ([], Inl p)
      | NoResponse \<Rightarrow> ([Recv (- 1)], Inr None)
      | Response code resp v1 \<Rightarrow>
          if code \<noteq> 107 then ([Recv code], Inr None)
          else
            let challenge = takeWhile (\<lambda>c. c \<noteq> newline) resp;
                response = sha256 cfg (challenge @ [newline] @ secret cfg @ challenge @ [newline])
            in (case CommandForSuccess v1 ''auth'' [EncodeToString response] of
                  (evs, r) \<Rightarrow> (Recv code # evs, r)))"

lemma Send_writable:
  "(ev, None, v1) = Send v str args \<Longrightarrow> writable v1 < writable v"
  by (auto simp: Send_def Let_def split: if_splits)

lemma ReadResponse_writable:
  "ReadResponse v = Response code resp v2 \<Longrightarrow> writable v2 = writable v"
  by (auto simp: ReadResponse_def conn_Fscanf_def conn_Read_def
      split: sum.splits option.splits if_splits list.splits)

text \<open>
  The loop of lines 190 to 260 on an authenticated connection: it ends when the
  connection fails (\<^verbatim>\<open>break\<close>), or with a panic, which ends the program. It returns the
  events, the gauges as the program leaves them and the panic if any. The gauges are
  written at the end of a cycle whose lines were all read.
\<close>

function poll :: "config \<Rightarrow> conn \<Rightarrow> gauges \<Rightarrow> event list \<times> gauges \<times> panic option" where
  "poll cfg v g =
     (case Send v ''backend.list'' [] of
        (ev, Some err, v1) \<Rightarrow> ([ev], g, None)
      | (ev, None, v1) \<Rightarrow>
          (case ReadResponse v1 of
             Panicked p \<Rightarrow> ([ev], g, Some p)
           | NoResponse \<Rightarrow> ([ev, Recv (- 1)], g, None)
           | Response code resp v2 \<Rightarrow>
               if code \<noteq> 200 then ([ev, Recv code], g, None)
               else
                 (case aggregate (directorRegexp cfg) resp of
                    Inl p \<Rightarrow> ([ev, Recv code], g, Some p)
                  | Inr a \<Rightarrow>
                      (case publish (resetBackends cfg) (directorRegexp cfg) a g of
                         (g1, Some p) \<Rightarrow> ([ev, Recv code], g1, Some p)
                       | (g1, None) \<Rightarrow>
                           (case poll cfg v2 g1 of
                              (evs, g2, p) \<Rightarrow>
                                ([ev, Recv code, Sleep (varnishInterval cfg)] @ evs, g2, p))))))"
  by pat_completeness auto
termination
  apply (relation "measure (\<lambda>(cfg, v, g). writable v)")
   apply simp
  apply (auto dest!: ReadResponse_writable Send_writable)
  done

declare poll.simps [simp del]

text \<open>One connection: lines 173 to 262.\<close>

definition session :: "config \<Rightarrow> conn \<Rightarrow> gauges \<Rightarrow> event list \<times> gauges \<times> panic option" where
  "session cfg v g =
     (case authenticate cfg v of
        (evs, Inl p) \<Rightarrow> (evs, g, Some p)
      | (evs, Inr None) \<Rightarrow> (evs, g, None)
      | (evs, Inr (Some v2)) \<Rightarrow>
          (case poll cfg v2 g of
             (evs', g', None) \<Rightarrow> (evs @ evs' @ [Close], g', None)
           | (evs', g', Some p) \<Rightarrow> (evs @ evs', g', Some p)))"

text \<open>
  The loop of lines 156 to 263. It never ends by itself; the model runs it over the
  outcomes of the calls of \<^verbatim>\<open>net.DialTCP\<close> to come (\<open>None\<close> for an error, or the connection
  with its future), as far as these are given, or to a panic.
\<close>

fun main_loop ::
  "config \<Rightarrow> bool \<Rightarrow> conn option list \<Rightarrow> gauges \<Rightarrow> event list \<times> gauges \<times> panic option" where
  "main_loop cfg first [] g = ([], g, None)"
| "main_loop cfg first (d # ds) g =
     (let pre = (if first then [] else [Sleep 5]) in
      case d of
        None \<Rightarrow>
          (case main_loop cfg False ds g of
             (evs, g', p) \<Rightarrow> (pre @ [Dial False] @ evs, g', p))
      | Some v \<Rightarrow>
          (case session cfg v g of
             (ev, g1, Some p) \<Rightarrow> (pre @ [Dial True] @ ev, g1, Some p)
           | (ev, g1, None) \<Rightarrow>
               (case main_loop cfg False ds g1 of
                  (evs, g2, p) \<Rightarrow> (pre @ [Dial True] @ ev @ evs, g2, p))))"

definition main :: "config \<Rightarrow> conn option list \<Rightarrow> event list \<times> gauges \<times> panic option" where
  "main cfg ds = main_loop cfg True ds Map.empty"

section \<open>Notions of the specification, and example inputs\<close>

text \<open>The header line of a listing, and the label of a line under a pattern.\<close>

definition is_header :: "string \<Rightarrow> bool" where
  "is_header t = HasPrefix t ''Backend name ''"

definition line_label :: "regexp \<Rightarrow> string \<Rightarrow> string" where
  "line_label re t = director_label re (Fields t ! 0)"

text \<open>
  The snapshot of a cycle: the value of each combination of label values the cycle writes.
\<close>

definition snapshot :: "regexp option \<Rightarrow> counts \<Rightarrow> gauges" where
  "snapshot re a lvs =
     (case re of
        None \<Rightarrow>
          if lvs = [''healthy''] then Some (healthy a)
          else if lvs = [''sick''] then Some (sick a)
          else None
      | Some r \<Rightarrow>
          (case lvs of
             [st, k] \<Rightarrow>
               if k \<in> set (labelall a) \<and> st = ''healthy'' then Some (get0 (labelhealthy a) k)
               else if k \<in> set (labelall a) \<and> st = ''sick'' then Some (get0 (labelsick a) k)
               else None
           | _ \<Rightarrow> None))"

text \<open>
  An instance of the parameter, for the examples: what the pattern \<^verbatim>\<open>.*_([^_]+)$\<close> of the
  README gives on a backend name (a field, so a text without a newline): the name
  matches when a text that is not empty and holds no underscore follows its last
  underscore, and that text is the capture group.
\<close>

definition suffix_regexp :: regexp where
  "suffix_regexp name =
     (let suf = rev (takeWhile (\<lambda>c. c \<noteq> CHR ''_'') (rev name)) in
      if CHR ''_'' \<in> set name \<and> suf \<noteq> [] then Some [Some name, Some suf] else None)"





text \<open>The labels of a cycle are all valid UTF-8: no gauge of the cycle panics.\<close>

definition valid_labels :: "regexp option \<Rightarrow> counts \<Rightarrow> bool" where
  "valid_labels re a =
     (case re of None \<Rightarrow> True | Some r \<Rightarrow> list_all ValidString (labelall a))"

text \<open>
  The listing of the scenarios of the specification, and one with a name the pattern does
  not match.
\<close>

definition listing :: string where
  "listing = ''Backend name Admin Health\<newline>web1_fe healthy Healthy\<newline>web2_fe sick Sick\<newline>''"

definition listing2 :: string where
  "listing2 = ''Backend name Admin Health\<newline>web1_fe healthy Healthy\<newline>db1 healthy Healthy\<newline>''"


definition listing4 :: string where
  "listing4 = ''Backend name Admin Health\<newline>web1_fe healthy Healthy\<newline>web_'' @ [CHR 0xFE] @ '' healthy Healthy\<newline>''"

text \<open>
  A configuration and a connection for the examples. The digest is a parameter of the
  model: the examples take the identity, which shows the text that is digested. The
  connection sends a greeting, accepts the authentication, answers one listing and
  closes.
\<close>

definition example_config :: config where
  "example_config = \<lparr>secret = ''s3cr3t\<newline>'', sha256 = (\<lambda>s. s),
     directorRegexp = None, resetBackends = False, varnishInterval = 15\<rparr>"

definition example_conn :: conn where
  "example_conn = \<lparr>rd = [''107 6\<newline>abc123\<newline>'', ''200 0\<newline>\<newline>'',
      ''200 68\<newline>Backend name Admin Health\<newline>web1_fe healthy Healthy\<newline>web2_fe sick Sick\<newline>\<newline>''], writable = 5\<rparr>"


text \<open>A connection whose listing has an empty line.\<close>

definition blank_line_conn :: conn where
  "blank_line_conn = \<lparr>rd = [''107 6\<newline>abc123\<newline>'', ''200 0\<newline>\<newline>'',
      ''200 51\<newline>Backend name Admin Health\<newline>\<newline>web2_fe healthy Healthy\<newline>\<newline>''], writable = 5\<rparr>"

text \<open>
  A configuration with the pattern of the README, and an authenticated connection that
  answers the listing with the name that is not valid UTF-8.
\<close>

definition grouped_config :: config where
  "grouped_config = \<lparr>secret = ''s3cr3t\<newline>'', sha256 = (\<lambda>s. s),
     directorRegexp = Some suffix_regexp, resetBackends = False, varnishInterval = 15\<rparr>"

definition invalid_label_conn :: conn where
  "invalid_label_conn = \<lparr>rd = [''200 72\<newline>'' @ listing4 @ ''\<newline>''], writable = 1\<rparr>"
section \<open>Properties of the aggregator\<close>



lemma Fields_web1: "Fields ''web1_fe healthy Healthy'' = [''web1_fe'', ''healthy'', ''Healthy'']"
  by (simp add: Fields.simps asciiSpace_def)

lemma Fields_web2: "Fields ''web2_fe sick Sick'' = [''web2_fe'', ''sick'', ''Sick'']"
  by (simp add: Fields.simps asciiSpace_def)

lemma Fields_db1: "Fields ''db1 healthy Healthy'' = [''db1'', ''healthy'', ''Healthy'']"
  by (simp add: Fields.simps asciiSpace_def)

lemma scan_lines_listing:
  "scan_lines listing = [''Backend name Admin Health'', ''web1_fe healthy Healthy'', ''web2_fe sick Sick'']"
  by (simp add: listing_def scan_lines.simps MaxScanTokenSize_def dropCR_def)

lemma scan_lines_listing2:
  "scan_lines listing2 = [''Backend name Admin Health'', ''web1_fe healthy Healthy'', ''db1 healthy Healthy'']"
  by (simp add: listing2_def scan_lines.simps MaxScanTokenSize_def dropCR_def)

lemma aggregate_listing_None:
  "aggregate None listing = Inr (counts0\<lparr>healthy := 1, sick := 1\<rparr>)"
  by (simp add: aggregate_def scan_lines_listing scan_line_def HasPrefix_def Fields_web1 Fields_web2
      is_healthy_def index_def counts0_def)

lemma aggregate_listing_Some:
  "aggregate (Some suffix_regexp) listing =
     Inr (counts0\<lparr>labelall := [''fe''], labelhealthy := [''fe'' \<mapsto> 1], labelsick := [''fe'' \<mapsto> 1]\<rparr>)"
  by (simp add: aggregate_def scan_lines_listing scan_line_def HasPrefix_def Fields_web1 Fields_web2
      is_healthy_def index_def counts0_def director_label_def FindStringSubmatch_def suffix_regexp_def
      incr_def get0_def Let_def)


lemma aggregate_listing2:
  "aggregate (Some suffix_regexp) listing2 =
     Inr (counts0\<lparr>labelall := [''unknown'', ''fe''],
           labelhealthy := [''fe'' \<mapsto> 1, ''unknown'' \<mapsto> 1]\<rparr>)"
  by (simp add: aggregate_def scan_lines_listing2 scan_line_def HasPrefix_def Fields_web1 Fields_db1
      is_healthy_def index_def counts0_def director_label_def FindStringSubmatch_def suffix_regexp_def
      incr_def get0_def Let_def)

lemma is_header_simps:
  "is_header ''Backend name Admin Health''" "\<not> is_header ''web1_fe healthy Healthy''"
  "\<not> is_header ''web2_fe sick Sick''"
  by (simp_all add: is_header_def HasPrefix_def)

lemma line_label_simps:
  "line_label suffix_regexp ''web1_fe healthy Healthy'' = ''fe''"
  "line_label suffix_regexp ''web2_fe sick Sick'' = ''fe''"
  by (simp_all add: line_label_def Fields_web1 Fields_web2 director_label_def FindStringSubmatch_def
      suffix_regexp_def Let_def)



lemma get0_incr: "get0 (incr m k) k' = get0 m k' + (if k' = k then 1 else 0)"
  by (simp add: get0_def incr_def)





subsection \<open>The counts of a cycle\<close>

lemma scan_line_None_cases:
  assumes "scan_line None a t = Inr a'"
  shows "(is_header t \<and> a' = a)
       \<or> (\<not> is_header t \<and> is_healthy (Fields t) = Inr True \<and> a' = a\<lparr>healthy := healthy a + 1\<rparr>)
       \<or> (\<not> is_header t \<and> is_healthy (Fields t) = Inr False \<and> a' = a\<lparr>sick := sick a + 1\<rparr>)"
  using assms
  by (auto simp: scan_line_def is_header_def Let_def split: if_splits sum.splits bool.splits)

lemma scan_loop_None_sum:
  "scan_loop None a ts = Inr a' \<Longrightarrow>
     healthy a' + sick a' = healthy a + sick a + int (length (filter (\<lambda>t. \<not> is_header t) ts))"
proof (induction ts arbitrary: a)
  case Nil
  then show ?case by simp
next
  case (Cons t ts)
  from Cons.prems obtain a1 where s1: "scan_line None a t = Inr a1"
    and s2: "scan_loop None a1 ts = Inr a'"
    by (auto split: sum.splits)
  from scan_line_None_cases [OF s1] Cons.IH [OF s2] show ?case
    by auto
qed


lemma scan_line_Some_cases:
  assumes "scan_line (Some re) a t = Inr a'"
  shows "(is_header t \<and> a' = a)
       \<or> (\<not> is_header t \<and> Fields t \<noteq> [] \<and> is_healthy (Fields t) = Inr True
            \<and> a' = a\<lparr>labelall := List.insert (line_label re t) (labelall a),
                     labelhealthy := incr (labelhealthy a) (line_label re t)\<rparr>)
       \<or> (\<not> is_header t \<and> Fields t \<noteq> [] \<and> is_healthy (Fields t) = Inr False
            \<and> a' = a\<lparr>labelall := List.insert (line_label re t) (labelall a),
                     labelsick := incr (labelsick a) (line_label re t)\<rparr>)"
  using assms
  by (auto simp: scan_line_def is_header_def line_label_def index_def Let_def
      split: if_splits sum.splits bool.splits)

lemma scan_loop_Some_counts:
  "scan_loop (Some re) a ts = Inr a' \<Longrightarrow>
     get0 (labelhealthy a') k = get0 (labelhealthy a) k
        + int (length (filter (\<lambda>t. \<not> is_header t \<and> line_label re t = k
                                    \<and> is_healthy (Fields t) = Inr True) ts))
     \<and> get0 (labelsick a') k = get0 (labelsick a) k
        + int (length (filter (\<lambda>t. \<not> is_header t \<and> line_label re t = k
                                    \<and> is_healthy (Fields t) = Inr False) ts))
     \<and> set (labelall a') = set (labelall a) \<union> line_label re ` {t \<in> set ts. \<not> is_header t}
     \<and> (\<forall>t \<in> set ts. \<not> is_header t \<longrightarrow> (\<exists>b. is_healthy (Fields t) = Inr b))"
proof (induction ts arbitrary: a)
  case Nil
  then show ?case by simp
next
  case (Cons t ts)
  from Cons.prems obtain a1 where s1: "scan_line (Some re) a t = Inr a1"
    and s2: "scan_loop (Some re) a1 ts = Inr a'"
    by (auto split: sum.splits)
  from scan_line_Some_cases [OF s1] Cons.IH [OF s2] show ?case
    by (auto simp: get0_incr)
qed


lemma filter_split_count:
  "\<forall>x \<in> set xs. \<not> (P x \<and> Q x) \<and> (R x \<longleftrightarrow> P x \<or> Q x) \<Longrightarrow>
     length (filter P xs) + length (filter Q xs) = length (filter R xs)"
  by (induction xs) auto

text \<open>
  C5. When the lines of a body are all classified (no line stops the cycle), the healthy
  and sick counts add up to the number of lines that are not header lines; with a
  pattern, the two counts of a label add up to the number of such lines with that label.
\<close>

theorem cycle_counts:
  "(aggregate None resp = Inr a \<longrightarrow>
      healthy a + sick a = int (length (filter (\<lambda>t. \<not> is_header t) (scan_lines resp))))
   \<and> (aggregate (Some re) resp = Inr a \<longrightarrow>
      (\<forall>k. get0 (labelhealthy a) k + get0 (labelsick a) k =
         int (length (filter (\<lambda>t. \<not> is_header t \<and> line_label re t = k) (scan_lines resp)))))"
proof (intro conjI impI allI)
  assume "aggregate None resp = Inr a"
  then have "scan_loop None counts0 (scan_lines resp) = Inr a"
    by (simp add: aggregate_def)
  from scan_loop_None_sum [OF this]
  show "healthy a + sick a = int (length (filter (\<lambda>t. \<not> is_header t) (scan_lines resp)))"
    by (simp add: counts0_def)
next
  fix k
  let ?ts = "scan_lines resp"
  let ?H = "\<lambda>t. \<not> is_header t \<and> line_label re t = k \<and> is_healthy (Fields t) = Inr True"
  let ?S = "\<lambda>t. \<not> is_header t \<and> line_label re t = k \<and> is_healthy (Fields t) = Inr False"
  let ?R = "\<lambda>t. \<not> is_header t \<and> line_label re t = k"
  assume "aggregate (Some re) resp = Inr a"
  then have loop: "scan_loop (Some re) counts0 ?ts = Inr a"
    by (simp add: aggregate_def)
  note c = scan_loop_Some_counts [OF loop, of k]
  from c have "\<forall>t \<in> set ?ts. \<not> (?H t \<and> ?S t) \<and> (?R t \<longleftrightarrow> ?H t \<or> ?S t)"
    by auto
  then have "length (filter ?H ?ts) + length (filter ?S ?ts) = length (filter ?R ?ts)"
    by (rule filter_split_count)
  moreover from c have "get0 (labelhealthy a) k = int (length (filter ?H ?ts))"
    and "get0 (labelsick a) k = int (length (filter ?S ?ts))"
    by (simp_all add: counts0_def get0_def)
  ultimately show "get0 (labelhealthy a) k + get0 (labelsick a) k = int (length (filter ?R ?ts))"
    by simp
qed

theorem cycle_counts_witness:
  "aggregate None listing = Inr (counts0\<lparr>healthy := 1, sick := 1\<rparr>)
   \<and> healthy (counts0\<lparr>healthy := 1, sick := 1\<rparr>) + sick (counts0\<lparr>healthy := 1, sick := 1\<rparr>) = 2
   \<and> length (filter (\<lambda>t. \<not> is_header t) (scan_lines listing)) = 2
   \<and> aggregate (Some suffix_regexp) listing =
       Inr (counts0\<lparr>labelall := [''fe''], labelhealthy := [''fe'' \<mapsto> 1], labelsick := [''fe'' \<mapsto> 1]\<rparr>)
   \<and> length (filter (\<lambda>t. \<not> is_header t \<and> line_label suffix_regexp t = ''fe'') (scan_lines listing)) = 2
   \<and> length (filter (\<lambda>t. \<not> is_header t \<and> line_label suffix_regexp t = ''be'') (scan_lines listing)) = 0"
  using cycle_counts [where resp = listing and a = "counts0\<lparr>healthy := 1, sick := 1\<rparr>"]
    cycle_counts [where re = suffix_regexp and resp = listing and a =
      "counts0\<lparr>labelall := [''fe''], labelhealthy := [''fe'' \<mapsto> 1], labelsick := [''fe'' \<mapsto> 1]\<rparr>"]
  by (simp add: aggregate_listing_None aggregate_listing_Some scan_lines_listing is_header_simps
      line_label_simps)


subsection \<open>Publishing\<close>

lemma ValidString_states: "ValidString ''healthy''" "ValidString ''sick''"
  by code_simp+

lemma ValidString_examples: "ValidString ''fe''" "ValidString ''unknown''" "ValidString ''be_''"
  "ValidString []" "\<not> ValidString [CHR 0xFE]"
  by code_simp+

lemma publish_labels_valid:
  "list_all ValidString ks \<Longrightarrow>
     publish_labels a ks g =
       (\<lambda>key. if \<exists>k \<in> set ks. key = [''healthy'', k] then Some (get0 (labelhealthy a) (key ! 1))
               else if \<exists>k \<in> set ks. key = [''sick'', k] then Some (get0 (labelsick a) (key ! 1))
               else g key, None)"
proof (induction ks arbitrary: g)
  case Nil
  then show ?case by simp
next
  case (Cons k ks)
  from Cons.prems have v: "ValidString k" and vs: "list_all ValidString ks"
    by simp_all
  show ?case
    by (simp add: Set_gauge_def ValidString_states v Cons.IH [OF vs]) auto
qed

lemma publish_labels_invalid:
  "\<not> list_all ValidString ks \<Longrightarrow> snd (publish_labels a ks g) = Some InvalidLabelValue"
  by (induction ks arbitrary: g) (auto simp: Set_gauge_def ValidString_states)

lemma publish_labels_frame:
  "\<forall>k \<in> set ks. lvs \<noteq> [''healthy'', k] \<and> lvs \<noteq> [''sick'', k] \<Longrightarrow>
     fst (publish_labels a ks g) lvs = g lvs"
  by (induction ks arbitrary: g) (auto simp: Set_gauge_def ValidString_states)

lemma publish_valid:
  assumes "valid_labels re a"
  shows "publish r re a g = ((if r then Map.empty else g) ++ snapshot re a, None)"
proof (cases re)
  case None
  have "(if r then Map.empty else g)([''healthy''] \<mapsto> healthy a, [''sick''] \<mapsto> sick a)
      = (if r then Map.empty else g) ++ snapshot None a"
    by (rule ext) (simp add: snapshot_def map_add_def)
  then show ?thesis
    by (cases r) (simp_all add: publish_def None Set_gauge_def ValidString_states Reset_def)
next
  case (Some x)
  from assms have v: "list_all ValidString (labelall a)"
    by (simp add: valid_labels_def Some)
  have "(\<lambda>key. if \<exists>k \<in> set (labelall a). key = [''healthy'', k]
                 then Some (get0 (labelhealthy a) (key ! 1))
               else if \<exists>k \<in> set (labelall a). key = [''sick'', k]
                 then Some (get0 (labelsick a) (key ! 1))
               else h key) = h ++ snapshot (Some x) a" for h :: gauges
    by (rule ext) (auto simp: snapshot_def map_add_def split: list.splits)
  then show ?thesis
    by (simp add: publish_def Some publish_labels_valid [OF v] Reset_def)
qed

lemma publish_invalid:
  "\<not> valid_labels re a \<Longrightarrow> snd (publish r re a g) = Some InvalidLabelValue"
  by (cases re) (simp_all add: valid_labels_def publish_def publish_labels_invalid)

lemma publish_frame:
  assumes "snapshot re a lvs = None"
  shows "fst (publish r re a g) lvs = (if r then None else g lvs)"
proof (cases re)
  case None
  with assms have "lvs \<noteq> [''healthy'']" "lvs \<noteq> [''sick'']"
    by (auto simp: snapshot_def split: if_splits)
  then show ?thesis
    by (simp add: publish_def None Set_gauge_def ValidString_states Reset_def)
next
  case (Some x)
  from assms have "\<forall>k \<in> set (labelall a). lvs \<noteq> [''healthy'', k] \<and> lvs \<noteq> [''sick'', k]"
    by (auto simp: snapshot_def Some)
  then show ?thesis
    by (simp add: publish_def Some publish_labels_frame Reset_def)
qed

subsection \<open>The label of a line\<close>








lemma Fields_listing4:
  "Fields (''web_'' @ [CHR 0xFE] @ '' healthy Healthy'') =
     [''web_'' @ [CHR 0xFE], ''healthy'', ''Healthy'']"
  by (simp add: Fields.simps asciiSpace_def)

lemma scan_lines_listing4:
  "scan_lines listing4 = [''Backend name Admin Health'', ''web1_fe healthy Healthy'',
     ''web_'' @ [CHR 0xFE] @ '' healthy Healthy'']"
  by (simp add: listing4_def scan_lines.simps MaxScanTokenSize_def dropCR_def)

lemma aggregate_listing4:
  "aggregate (Some suffix_regexp) listing4 =
     Inr (counts0\<lparr>labelall := [[CHR 0xFE], ''fe''],
                  labelhealthy := [''fe'' \<mapsto> 1, [CHR 0xFE] \<mapsto> 1]\<rparr>)"
  by (simp add: aggregate_def scan_lines_listing4 scan_line_def HasPrefix_def Fields_web1
      Fields_listing4 [simplified] is_healthy_def index_def counts0_def director_label_def
      FindStringSubmatch_def suffix_regexp_def incr_def get0_def Let_def)




text \<open>
  C8. When no label of the cycle panics, with \<^verbatim>\<open>varnish.reset\<close> the gauges after a cycle
  are exactly the snapshot of the cycle, and without it they are the previous ones
  overwritten by the snapshot. In every case, also when a label panics, a combination
  of label values the cycle does not write is absent after publishing with
  \<^verbatim>\<open>varnish.reset\<close>, and keeps its previous value without it. Publishing panics exactly
  when a label of the cycle is not valid UTF-8.
\<close>

theorem publish_reset:
  "(valid_labels re a \<longrightarrow>
      publish True re a g = (snapshot re a, None)
      \<and> publish False re a g = (g ++ snapshot re a, None))
   \<and> (\<not> valid_labels re a \<longrightarrow>
      snd (publish True re a g) = Some InvalidLabelValue
      \<and> snd (publish False re a g) = Some InvalidLabelValue)
   \<and> (snapshot re a lvs = None \<longrightarrow>
      fst (publish True re a g) lvs = None \<and> fst (publish False re a g) lvs = g lvs)"
  by (simp add: publish_valid publish_invalid publish_frame)

theorem publish_reset_witness:
  "valid_labels (Some suffix_regexp) (counts0\<lparr>labelall := [''fe''], labelhealthy := [''fe'' \<mapsto> 2]\<rparr>)
   \<and> snapshot (Some suffix_regexp) (counts0\<lparr>labelall := [''fe''], labelhealthy := [''fe'' \<mapsto> 2]\<rparr>)
      [''healthy'', ''be''] = None
   \<and> publish True (Some suffix_regexp) (counts0\<lparr>labelall := [''fe''], labelhealthy := [''fe'' \<mapsto> 2]\<rparr>)
        [[''healthy'', ''be''] \<mapsto> 3] = ([[''healthy'', ''fe''] \<mapsto> 2, [''sick'', ''fe''] \<mapsto> 0], None)
   \<and> publish False (Some suffix_regexp) (counts0\<lparr>labelall := [''fe''], labelhealthy := [''fe'' \<mapsto> 2]\<rparr>)
        [[''healthy'', ''be''] \<mapsto> 3] =
          ([[''healthy'', ''be''] \<mapsto> 3, [''healthy'', ''fe''] \<mapsto> 2, [''sick'', ''fe''] \<mapsto> 0], None)
   \<and> fst (publish True (Some suffix_regexp) (counts0\<lparr>labelall := [''fe''], labelhealthy := [''fe'' \<mapsto> 2]\<rparr>)
        [[''healthy'', ''be''] \<mapsto> 3]) [''healthy'', ''be''] = None
   \<and> fst (publish False (Some suffix_regexp) (counts0\<lparr>labelall := [''fe''], labelhealthy := [''fe'' \<mapsto> 2]\<rparr>)
        [[''healthy'', ''be''] \<mapsto> 3]) [''healthy'', ''be''] = Some 3
   \<and> \<not> valid_labels (Some suffix_regexp) (counts0\<lparr>labelall := [[CHR 0xFE]]\<rparr>)
   \<and> snd (publish True (Some suffix_regexp) (counts0\<lparr>labelall := [[CHR 0xFE]]\<rparr>)
        [[''healthy'', ''be''] \<mapsto> 3]) = Some InvalidLabelValue"
proof -
  let ?a = "counts0\<lparr>labelall := [''fe''], labelhealthy := [''fe'' \<mapsto> 2]\<rparr>"
  let ?b = "counts0\<lparr>labelall := [[CHR 0xFE]]\<rparr>"
  let ?g = "[[''healthy'', ''be''] \<mapsto> (3::int)]"
  have v: "valid_labels (Some suffix_regexp) ?a"
    by (simp add: valid_labels_def ValidString_examples)
  have n: "\<not> valid_labels (Some suffix_regexp) ?b"
    by (simp add: valid_labels_def ValidString_examples)
  have h: "snapshot (Some suffix_regexp) ?a [''healthy'', ''be''] = None"
    by (simp add: snapshot_def counts0_def)
  have s: "snapshot (Some suffix_regexp) ?a = [[''healthy'', ''fe''] \<mapsto> 2, [''sick'', ''fe''] \<mapsto> 0]"
    by (rule ext) (auto simp: snapshot_def counts0_def get0_def split: list.splits)
  have m: "?g ++ [[''healthy'', ''fe''] \<mapsto> 2, [''sick'', ''fe''] \<mapsto> 0]
      = [[''healthy'', ''be''] \<mapsto> 3, [''healthy'', ''fe''] \<mapsto> 2, [''sick'', ''fe''] \<mapsto> 0]"
    by (rule ext) (simp add: map_add_def)
  from publish_reset [where re = "Some suffix_regexp" and a = ?a and g = ?g
      and lvs = "[''healthy'', ''be'']"]
    publish_reset [where re = "Some suffix_regexp" and a = ?b and g = ?g
      and lvs = "[''healthy'', ''be'']"]
  show ?thesis
    using v n h by (simp add: s m)
qed

section \<open>Properties of the protocol client\<close>

subsection \<open>Decimal digits\<close>

lemma is_digit_char_of: "d < 10 \<Longrightarrow> is_digit (char_of (48 + d :: nat))"
  by (simp add: is_digit_def)

lemma digit_val_char_of: "d < 10 \<Longrightarrow> digit_val (char_of (48 + d :: nat)) = int d"
  by (simp add: digit_val_def)

lemma digits_of_digits: "c \<in> set (digits_of n) \<Longrightarrow> is_digit c"
proof (induction n arbitrary: c rule: digits_of.induct)
  case (1 n)
  show ?case
  proof (cases "n < 10")
    case True
    with "1.prems" show ?thesis
      by (subst (asm) digits_of.simps) (simp add: is_digit_char_of)
  next
    case False
    with "1.prems" have "c \<in> set (digits_of (n div 10)) \<or> c = char_of (48 + n mod 10)"
      by (subst (asm) digits_of.simps) auto
    with False "1.IH" show ?thesis
      using is_digit_char_of [of "n mod 10"] by auto
  qed
qed

lemma digits_of_nonempty: "digits_of n \<noteq> []"
  by (subst digits_of.simps) simp

lemma length_digits_of: "0 < k \<Longrightarrow> n < 10 ^ k \<Longrightarrow> length (digits_of n) \<le> k"
proof (induction n arbitrary: k rule: digits_of.induct)
  case (1 n)
  show ?case
  proof (cases "n < 10")
    case True
    with "1.prems" show ?thesis
      by (subst digits_of.simps) simp
  next
    case False
    with "1.prems" obtain j where k: "k = Suc j" and j: "0 < j"
      by (cases k; cases "k - 1") auto
    from "1.prems" k have "n div 10 < 10 ^ j"
      by (simp add: less_mult_imp_div_less mult.commute)
    with False j have "length (digits_of (n div 10)) \<le> j"
      by (intro "1.IH") auto
    with False k show ?thesis
      by (subst digits_of.simps) simp
  qed
qed

lemma atoi_append: "atoi a (xs @ ys) = atoi (atoi a xs) ys"
  by (induction xs arbitrary: a) auto

lemma atoi_digits_of: "atoi 0 (digits_of n) = int n"
proof (induction n rule: digits_of.induct)
  case (1 n)
  show ?case
  proof (cases "n < 10")
    case True
    then show ?thesis
      by (subst digits_of.simps) (simp add: digit_val_char_of)
  next
    case False
    with "1.IH" have "atoi 0 (digits_of (n div 10)) = int (n div 10)"
      by simp
    moreover have "int (n div 10) * 10 + int (n mod 10) = int n"
      by presburger
    ultimately show ?thesis
      using False digit_val_char_of [of "n mod 10"]
      by (subst digits_of.simps) (simp add: atoi_append)
  qed
qed

lemma atoi_zeros: "atoi 0 (replicate m CHR ''0'' @ ds) = atoi 0 ds"
  by (induction m) (auto simp: digit_val_def)


subsection \<open>Scanning digits and spaces\<close>

lemma space_width_digit:
  assumes "is_digit c"
  shows "space_width (c # xs) = 0"
proof -
  from assms have r: "48 \<le> (of_char c :: nat)" "(of_char c :: nat) \<le> 57"
    by (simp_all add: is_digit_def)
  have "\<not> asciiSpace c"
    using r by (auto simp: asciiSpace_def)
  moreover have "c \<noteq> CHR 0xC2" "c \<noteq> CHR 0xE1" "c \<noteq> CHR 0xE2" "c \<noteq> CHR 0xE3"
    using r by auto
  ultimately show ?thesis
    by simp
qed

lemma blank_width_digit: "is_digit c \<Longrightarrow> blank_width (c # xs) = 0"
  using space_width_digit [of c xs] by (simp add: blank_width_def del: space_width.simps)

lemma digit_not_newline: "is_digit c \<Longrightarrow> c \<noteq> newline"
  by (auto simp: is_digit_def newline_def)

lemma skip_blanks_id: "blank_width s = 0 \<Longrightarrow> skip_blanks s = s"
  by (subst skip_blanks.simps) simp

lemma SkipSpace_digit: "is_digit c \<Longrightarrow> SkipSpace (c # xs) = Inr (c # xs)"
  by (simp add: SkipSpace_def skip_blanks_id blank_width_digit digit_not_newline)

lemma skip_blanks_spaces:
  "blank_width (c # rest) = 0 \<Longrightarrow> skip_blanks (replicate m CHR '' '' @ c # rest) = c # rest"
proof (induction m)
  case 0
  then show ?case by (simp add: skip_blanks_id)
next
  case (Suc m)
  have "blank_width (replicate (Suc m) CHR '' '' @ c # rest) = 1"
    by (simp add: blank_width_def newline_def asciiSpace_def)
  with Suc show ?case
    by (subst skip_blanks.simps) simp
qed

lemma scanInt_digits:
  assumes "ds \<noteq> []" and "\<forall>c \<in> set ds. is_digit c" and "length ds \<le> w"
    and "length ds = w \<or> rest = [] \<or> \<not> is_digit (hd rest)"
  shows "scanInt w (ds @ rest) = Inr (atoi 0 ds, rest)"
proof -
  from assms(1) obtain d ds' where ds: "ds = d # ds'"
    by (cases ds) auto
  with assms(2) have d: "is_digit d" by simp
  then have nosign: "d \<noteq> CHR ''+''" "d \<noteq> CHR ''-''"
    by (auto simp: is_digit_def)
  have "takeWhile is_digit (take w (ds @ rest)) = ds"
  proof (cases "length ds = w")
    case True
    with assms(2) show ?thesis by simp
  next
    case False
    with assms(4) have "takeWhile is_digit (take (w - length ds) rest) = []"
      by (cases rest) (auto simp: take_Cons')
    with assms(2,3) show ?thesis
      by (simp add: takeWhile_append2)
  qed
  moreover from assms(3) ds have "0 < w" by auto
  ultimately show ?thesis
    using nosign ds by (simp add: scanInt_def ParseInt_def)
qed

lemma Sprintf_03d_nonneg:
  assumes "0 \<le> n" and "n \<le> 999"
  shows "\<exists>ds. Sprintf_03d n = ds \<and> length ds = 3 \<and> (\<forall>c \<in> set ds. is_digit c) \<and> atoi 0 ds = n"
proof -
  let ?ds = "digits_of (nat n)"
  from assms have "nat n < 10 ^ 3" by simp
  then have len: "length ?ds \<le> 3"
    by (intro length_digits_of) auto
  have z: "is_digit CHR ''0''" by (simp add: is_digit_def)
  from assms len show ?thesis
    by (auto simp: Sprintf_03d_def Let_def atoi_zeros atoi_digits_of z dest: digits_of_digits)
qed

lemma Fscanf_Sprintf_header:
  assumes "0 \<le> status" and "status \<le> 999" and "0 \<le> len" and "len \<le> 99999999"
  shows "Fscanf_header (Sprintf_header status len @ rest) = Inr (status, len, rest)"
proof -
  define ss where "ss = Sprintf_03d status"
  define ls where "ls = digits_of (nat len)"
  define pad where "pad = replicate (8 - length ls) CHR '' ''"
  define tail where "tail = ls @ newline # rest"
  from Sprintf_03d_nonneg [OF assms(1,2)] have ss: "length ss = 3" "\<forall>c \<in> set ss. is_digit c"
    "atoi 0 ss = status"
    by (simp_all add: ss_def)
  then obtain s0 ss' where ss0: "ss = s0 # ss'" by (cases ss) auto
  with ss(2) have s0: "is_digit s0" by simp
  from assms have "nat len < 10 ^ 8" by simp
  then have llen: "length ls \<le> 8"
    unfolding ls_def by (intro length_digits_of) auto
  obtain l0 ls' where ls0: "ls = l0 # ls'"
    using digits_of_nonempty [of "nat len"] by (cases ls) (auto simp: ls_def)
  have ldig: "\<forall>c \<in> set ls. is_digit c"
    by (auto simp: ls_def dest: digits_of_digits)
  with ls0 have l0: "is_digit l0" by simp
  have lval: "atoi 0 ls = len"
    using assms(3) by (simp add: ls_def atoi_digits_of)
  have nl: "\<not> is_digit newline" by (simp add: is_digit_def newline_def)
  have hdr: "Sprintf_header status len @ rest = ss @ CHR '' '' # pad @ tail"
    using assms(3) by (simp add: Sprintf_header_def Sprintf_8d_def ss_def ls_def pad_def tail_def Let_def)
  have 1: "SkipSpace (ss @ CHR '' '' # pad @ tail) = Inr (ss @ CHR '' '' # pad @ tail)"
    unfolding ss0 using s0 by (simp add: SkipSpace_digit)
  have 2: "scanInt 3 (ss @ CHR '' '' # pad @ tail) = Inr (status, CHR '' '' # pad @ tail)"
    using scanInt_digits [of ss 3 "CHR '' '' # pad @ tail"] ss ss0 by simp
  have "skip_blanks (replicate (Suc (8 - length ls)) CHR '' '' @ l0 # (ls' @ newline # rest)) =
      l0 # (ls' @ newline # rest)"
    by (rule skip_blanks_spaces) (simp add: blank_width_digit l0)
  then have sk: "skip_blanks (CHR '' '' # pad @ tail) = tail"
    by (simp add: pad_def tail_def ls0)
  have 3: "advance_space (CHR '' '' # pad @ tail) = Inr tail"
    unfolding advance_space_def sk by (simp add: newline_def asciiSpace_def)
  have 4: "SkipSpace tail = Inr tail"
    unfolding tail_def ls0 using l0 by (simp add: SkipSpace_digit)
  have 5: "scanInt 8 tail = Inr (len, newline # rest)"
    unfolding tail_def
    using scanInt_digits [of ls 8 "newline # rest"] ldig llen nl ls0 lval by simp
  have 6: "advance_newline (newline # rest) = Inr rest"
    by (simp add: advance_newline_def skip_blanks_id blank_width_def)
  show ?thesis
    unfolding hdr by (simp add: Fscanf_header_def 1 2 3 4 5 6)
qed

text \<open>
  C9. A header formatted with \<^verbatim>\<open>"%03d %8d\n"\<close> from a status from 0 to 999 and a length
  from 0 to 99999999, and followed by anything, is scanned by the parser of
  \<^verbatim>\<open>ReadResponse\<close> to that status and that length, and the scan ends right after the
  header.
\<close>

theorem header_roundtrip:
  assumes "0 \<le> status" and "status \<le> 999" and "0 \<le> len" and "len \<le> 99999999"
  shows "Fscanf_header (Sprintf_header status len @ rest) = Inr (status, len, rest)"
  using assms by (rule Fscanf_Sprintf_header)

theorem header_roundtrip_witness:
  "(0::int) \<le> 200 \<and> (200::int) \<le> 999 \<and> (0::int) \<le> 19 \<and> (19::int) \<le> 99999999
   \<and> Sprintf_header 200 19 = ''200       19\<newline>''
   \<and> Fscanf_header (''200       19\<newline>'' @ ''body'') = Inr (200, 19, ''body'')"
proof -
  have s: "Sprintf_header 200 19 = ''200       19\<newline>''"
    by code_simp
  from header_roundtrip [of 200 19 "''body''"] show ?thesis
    by (simp add: s)
qed

subsection \<open>Reading a response\<close>

lemma concat_rd_drop: "concat (rd_drop n xs) = drop n (concat xs)"
  by (induction xs arbitrary: n) auto

text \<open>
  The scan of a header reads at least one byte and leaves on the connection the input
  after what it read: the pieces of the connection do not matter to it.
\<close>

lemma skip_blanks_drop: "\<exists>n. skip_blanks s = drop n s"
proof (induction s rule: skip_blanks.induct)
  case (1 s)
  show ?case
  proof (cases "0 < blank_width s")
    case True
    with 1 obtain n where "skip_blanks (drop (blank_width s) s) = drop n (drop (blank_width s) s)"
      by blast
    with True have "skip_blanks s = drop (blank_width s + n) s"
      by (subst skip_blanks.simps) (simp add: add.commute)
    then show ?thesis by blast
  next
    case False
    then have "skip_blanks s = drop 0 s"
      by (subst skip_blanks.simps) simp
    then show ?thesis by blast
  qed
qed

lemma SkipSpace_drop: "SkipSpace s = Inr r \<Longrightarrow> \<exists>n. r = drop n s"
  using skip_blanks_drop [of s] by (auto simp: SkipSpace_def Let_def split: if_splits intro: sym)

lemma advance_space_drop: "advance_space s = Inr r \<Longrightarrow> \<exists>n. r = drop n s"
  using skip_blanks_drop [of s] by (auto simp: advance_space_def split: if_splits intro: sym)

lemma advance_newline_drop: "advance_newline s = Inr r \<Longrightarrow> \<exists>n. r = drop n s"
proof -
  assume a: "advance_newline s = Inr r"
  obtain n where n: "skip_blanks s = drop n s"
    using skip_blanks_drop by blast
  show ?thesis
  proof (cases "skip_blanks s")
    case Nil
    with a n show ?thesis by (auto simp: advance_newline_def)
  next
    case (Cons c cs)
    with a have "r = cs" by (auto simp: advance_newline_def split: if_splits)
    with Cons n have "r = drop (Suc n) s"
      by (metis drop_Suc tl_drop list.sel(3))
    then show ?thesis by blast
  qed
qed

lemma scanInt_drop:
  assumes "scanInt w s = Inr (x, r)"
  shows "\<exists>n. 0 < n \<and> n \<le> length s \<and> r = drop n s"
proof (cases s)
  case Nil
  with assms show ?thesis by (simp add: scanInt_def)
next
  case (Cons c cs)
  show ?thesis
  proof (cases "c = CHR ''+'' \<or> c = CHR ''-''")
    case True
    let ?ds = "takeWhile is_digit (take (w - 1) cs)"
    from assms Cons True have r: "r = drop (length ?ds) cs" and "?ds \<noteq> []"
      by (auto simp: scanInt_def Let_def split: if_splits)
    have "length ?ds \<le> length cs"
      by (metis length_takeWhile_le length_take min.cobounded1 order_trans)
    with r Cons show ?thesis
      by (intro exI [of _ "Suc (length ?ds)"]) simp
  next
    case False
    let ?ds = "takeWhile is_digit (take w s)"
    from assms Cons False have r: "r = drop (length ?ds) s" and ne: "?ds \<noteq> []"
      by (auto simp: scanInt_def Let_def split: if_splits)
    have "length ?ds \<le> length s"
      by (metis length_takeWhile_le length_take min.cobounded1 order_trans)
    with r ne show ?thesis
      by (intro exI [of _ "length ?ds"]) simp
  qed
qed

lemma Fscanf_header_drop:
  assumes "Fscanf_header s = Inr (status, len, rest)"
  shows "\<exists>n. 0 < n \<and> n \<le> length s \<and> rest = drop n s"
proof -
  from assms obtain s1 s2 s3 s4 s5 where
    1: "SkipSpace s = Inr s1" and 2: "scanInt 3 s1 = Inr (status, s2)"
    and 3: "advance_space s2 = Inr s3" and 4: "SkipSpace s3 = Inr s4"
    and 5: "scanInt 8 s4 = Inr (len, s5)" and 6: "advance_newline s5 = Inr rest"
    by (auto simp: Fscanf_header_def split: sum.splits)
  from SkipSpace_drop [OF 1] obtain n1 where n1: "s1 = drop n1 s" by blast
  from scanInt_drop [OF 2] obtain n2 where n2: "0 < n2" "n2 \<le> length s1" "s2 = drop n2 s1" by blast
  from advance_space_drop [OF 3] obtain n3 where n3: "s3 = drop n3 s2" by blast
  from SkipSpace_drop [OF 4] obtain n4 where n4: "s4 = drop n4 s3" by blast
  from scanInt_drop [OF 5] obtain n5 where n5: "0 < n5" "n5 \<le> length s4" "s5 = drop n5 s4" by blast
  from advance_newline_drop [OF 6] obtain n6 where n6: "rest = drop n6 s5" by blast
  let ?n = "n1 + n2 + n3 + n4 + n5 + n6"
  from n1 n2 n3 n4 n5 n6 have r: "rest = drop ?n s"
    by (simp add: add.commute add.left_commute)
  show ?thesis
  proof (cases "?n \<le> length s")
    case True
    with r n2 show ?thesis by (intro exI [of _ ?n]) simp
  next
    case False
    from n1 n2 have "0 < length s" by auto
    with False r show ?thesis by (intro exI [of _ "length s"]) simp
  qed
qed

lemma conn_Fscanf_rest:
  assumes "conn_Fscanf v = Inr (status, len, v1)"
  shows "Fscanf_header (concat (rd v)) = Inr (status, len, concat (rd v1))
     \<and> length (concat (rd v1)) < length (concat (rd v)) \<and> writable v1 = writable v"
proof -
  from assms obtain rest where f: "Fscanf_header (concat (rd v)) = Inr (status, len, rest)"
    and v1: "v1 = v\<lparr>rd := rd_drop (length (concat (rd v)) - length rest) (rd v)\<rparr>"
    by (auto simp: conn_Fscanf_def split: sum.splits)
  from Fscanf_header_drop [OF f] obtain n where n: "0 < n" "n \<le> length (concat (rd v))"
    "rest = drop n (concat (rd v))"
    by blast
  then have "length (concat (rd v)) - length rest = n" by simp
  with v1 n f show ?thesis
    by (simp add: concat_rd_drop)
qed

lemma conn_Fscanf_header:
  assumes "0 \<le> status" and "status \<le> 999" and "0 \<le> len" and "len \<le> 99999999"
    and "rest \<noteq> []"
  shows "conn_Fscanf \<lparr>rd = [Sprintf_header status len @ rest], writable = w\<rparr> =
           Inr (status, len, \<lparr>rd = [rest], writable = w\<rparr>)"
proof -
  have "length (Sprintf_header status len @ rest) - length rest = length (Sprintf_header status len)"
    by simp
  with assms(5) show ?thesis
    by (simp add: conn_Fscanf_def Fscanf_Sprintf_header [OF assms(1-4)])
qed

text \<open>
  The paths of \<^verbatim>\<open>ReadResponse\<close> that return. It returns \<^verbatim>\<open>(-1, nil)\<close> when the header is
  not scanned. When the header is scanned and its length is not negative, it returns
  \<^verbatim>\<open>(-1, nil)\<close> when the read of the body gives an error or a number of bytes other than
  the length plus one, and otherwise the status and the first bytes read, as many as the
  length. So a body it returns is never cut short: it has the length of the header, and
  one more byte was read with it.
\<close>

theorem ReadResponse_cases:
  "(conn_Fscanf v = Inl e \<longrightarrow> ReadResponse v = NoResponse)
   \<and> (conn_Fscanf v = Inr (status, len, v1) \<and> 0 \<le> len \<longrightarrow>
        (case conn_Read v1 (nat (len + 1)) of
           None \<Rightarrow> ReadResponse v = NoResponse
         | Some (buf, v2) \<Rightarrow>
             if int (length buf) = len + 1
             then ReadResponse v = Response status (take (nat len) buf) v2
             else ReadResponse v = NoResponse))
   \<and> (ReadResponse v = Response status body v2 \<longrightarrow>
        (\<exists>v1 t. conn_Fscanf v = Inr (status, int (length body), v1)
           \<and> conn_Read v1 (length body + 1) = Some (body @ [t], v2)))"
proof (intro conjI impI)
  assume "conn_Fscanf v = Inl e"
  then show "ReadResponse v = NoResponse"
    by (simp add: ReadResponse_def)
next
  assume "conn_Fscanf v = Inr (status, len, v1) \<and> 0 \<le> len"
  then show "case conn_Read v1 (nat (len + 1)) of
           None \<Rightarrow> ReadResponse v = NoResponse
         | Some (buf, v2) \<Rightarrow>
             if int (length buf) = len + 1
             then ReadResponse v = Response status (take (nat len) buf) v2
             else ReadResponse v = NoResponse"
    by (auto simp: ReadResponse_def split: option.splits)
next
  assume r: "ReadResponse v = Response status body v2"
  then obtain len v1 buf where h: "conn_Fscanf v = Inr (status, len, v1)" "0 \<le> len"
    and rd: "conn_Read v1 (nat (len + 1)) = Some (buf, v2)" "int (length buf) = len + 1"
    and body: "body = take (nat len) buf"
    by (auto simp: ReadResponse_def split: sum.splits option.splits if_splits)
  from rd(2) h(2) have "buf \<noteq> []" by auto
  then have buf: "buf = butlast buf @ [last buf]" by simp
  from rd(2) h(2) have n: "nat len = length buf - 1" by linarith
  with body have b: "body = butlast buf"
    by (simp add: butlast_conv_take)
  from rd(2) h(2) b have len: "int (length body) = len" by simp
  from b n have "nat (len + 1) = length body + 1"
    using h(2) by (simp add: nat_add_distrib)
  with rd(1) buf b have "conn_Read v1 (length body + 1) = Some (body @ [last buf], v2)"
    by simp
  with h(1) len show "\<exists>v1 t. conn_Fscanf v = Inr (status, int (length body), v1)
           \<and> conn_Read v1 (length body + 1) = Some (body @ [t], v2)"
    by auto
qed


text \<open>
  The scenarios: a header that is not scanned; a header of length 10 before 8 bytes and a
  terminator; a greeting.
\<close>

theorem ReadResponse_cases_witness:
  "conn_Fscanf \<lparr>rd = [''20x 5\<newline>''], writable = 0\<rparr> = Inl ExpectedSpace
   \<and> ReadResponse \<lparr>rd = [''20x 5\<newline>''], writable = 0\<rparr> = NoResponse
   \<and> conn_Fscanf \<lparr>rd = [''200 10\<newline>12345678\<newline>''], writable = 0\<rparr>
       = Inr (200, 10, \<lparr>rd = [''12345678\<newline>''], writable = 0\<rparr>)
   \<and> (0::int) \<le> 10
   \<and> conn_Read \<lparr>rd = [''12345678\<newline>''], writable = 0\<rparr> (nat (10 + 1))
       = Some (''12345678\<newline>'', \<lparr>rd = [[]], writable = 0\<rparr>)
   \<and> int (length ''12345678\<newline>'') \<noteq> 10 + 1
   \<and> ReadResponse \<lparr>rd = [''200 10\<newline>12345678\<newline>''], writable = 0\<rparr> = NoResponse
   \<and> ReadResponse \<lparr>rd = [''107 6\<newline>abc123\<newline>''], writable = 0\<rparr>
       = Response 107 ''abc123'' \<lparr>rd = [[]], writable = 0\<rparr>
   \<and> conn_Fscanf \<lparr>rd = [''107 6\<newline>abc123\<newline>''], writable = 0\<rparr>
       = Inr (107, int (length ''abc123''), \<lparr>rd = [''abc123\<newline>''], writable = 0\<rparr>)"
proof -
  have f1: "conn_Fscanf \<lparr>rd = [''20x 5\<newline>''], writable = 0\<rparr> = Inl ExpectedSpace"
    by code_simp
  have f2: "conn_Fscanf \<lparr>rd = [''200 10\<newline>12345678\<newline>''], writable = 0\<rparr>
       = Inr (200, 10, \<lparr>rd = [''12345678\<newline>''], writable = 0\<rparr>)"
    by code_simp
  have r2: "conn_Read \<lparr>rd = [''12345678\<newline>''], writable = 0\<rparr> (nat (10 + 1))
       = Some (''12345678\<newline>'', \<lparr>rd = [[]], writable = 0\<rparr>)"
    by code_simp
  have r3: "ReadResponse \<lparr>rd = [''107 6\<newline>abc123\<newline>''], writable = 0\<rparr>
       = Response 107 ''abc123'' \<lparr>rd = [[]], writable = 0\<rparr>"
    by code_simp
  have f3: "conn_Fscanf \<lparr>rd = [''107 6\<newline>abc123\<newline>''], writable = 0\<rparr>
       = Inr (107, int (length ''abc123''), \<lparr>rd = [''abc123\<newline>''], writable = 0\<rparr>)"
    by code_simp
  from ReadResponse_cases [where v = "\<lparr>rd = [''20x 5\<newline>''], writable = 0\<rparr>" and e = ExpectedSpace]
    ReadResponse_cases [where v = "\<lparr>rd = [''200 10\<newline>12345678\<newline>''], writable = 0\<rparr>"
      and status = 200 and len = 10 and ?v1.0 = "\<lparr>rd = [''12345678\<newline>''], writable = 0\<rparr>"]
  show ?thesis
    using f1 f2 r2 r3 f3 by simp
qed

text \<open>
  C4. \<^verbatim>\<open>ReadResponse\<close> does not return on a header with a negative length, which \<^verbatim>\<open>%8d\<close>
  scans: the sign of the length is the one thing of a response it does not check. With
  the length -1 the header gives two values, the read of no byte gives no error and the
  number of bytes read is the length plus one, yet neither \<^verbatim>\<open>(-1, nil)\<close> nor a body is
  returned: the slice \<^verbatim>\<open>buf[0 : len(buf)-1]\<close> is out of range and the program panics.
  With a length below -1, \<^verbatim>\<open>make\<close> panics.
\<close>

theorem ReadResponse_negative_length:
  "conn_Fscanf \<lparr>rd = [''200 -1\<newline>''], writable = 0\<rparr> = Inr (200, - 1, \<lparr>rd = [], writable = 0\<rparr>)
   \<and> conn_Read \<lparr>rd = [], writable = 0\<rparr> (nat (- 1 + 1)) = Some ([], \<lparr>rd = [], writable = 0\<rparr>)
   \<and> int (length ([] :: string)) = - 1 + 1
   \<and> ReadResponse \<lparr>rd = [''200 -1\<newline>''], writable = 0\<rparr> = Panicked SliceBoundsOutOfRange
   \<and> ReadResponse \<lparr>rd = [''200 -1\<newline>''], writable = 0\<rparr>
       \<noteq> Response 200 (take (nat (- 1)) []) \<lparr>rd = [], writable = 0\<rparr>
   \<and> conn_Fscanf \<lparr>rd = [''200 -5\<newline>body''], writable = 0\<rparr>
       = Inr (200, - 5, \<lparr>rd = [''body''], writable = 0\<rparr>)
   \<and> ReadResponse \<lparr>rd = [''200 -5\<newline>body''], writable = 0\<rparr> = Panicked MakeSliceLenOutOfRange"
  by code_simp

text \<open>
  A response whose header is formatted from the length of its body is read back, with
  any byte in the place of the terminator.
\<close>

lemma ReadResponse_formatted:
  assumes "0 \<le> status" and "status \<le> 999" and "length body \<le> 99999999"
  shows "ReadResponse \<lparr>rd = [Sprintf_header status (int (length body)) @ body @ [t] @ rest],
                        writable = w\<rparr>
        = Response status body \<lparr>rd = [rest], writable = w\<rparr>"
proof -
  let ?v = "\<lparr>rd = [Sprintf_header status (int (length body)) @ body @ [t] @ rest], writable = w\<rparr>"
  from assms have "conn_Fscanf ?v =
      Inr (status, int (length body), \<lparr>rd = [body @ [t] @ rest], writable = w\<rparr>)"
    by (intro conn_Fscanf_header) auto
  moreover have "conn_Read \<lparr>rd = [body @ [t] @ rest], writable = w\<rparr> (nat (int (length body) + 1))
      = Some (body @ [t], \<lparr>rd = [rest], writable = w\<rparr>)"
    by (simp add: conn_Read_def nat_add_distrib)
  ultimately show ?thesis
    by (simp add: ReadResponse_def)
qed

text \<open>
  C10. When the header is scanned and the read gives the length plus one bytes, the body
  returned is these bytes but the last, and the last byte is not looked at: whatever it
  is, the result is the same.
\<close>

theorem terminator_unchecked:
  assumes "conn_Fscanf v = Inr (status, len, v1)"
    and "conn_Read v1 (nat (len + 1)) = Some (body @ [t], v2)"
    and "int (length body) = len"
  shows "ReadResponse v = Response status body v2"
  using assms by (auto simp: ReadResponse_def)

theorem terminator_unchecked_witness:
  "conn_Fscanf \<lparr>rd = [''200 3\<newline>abcX''], writable = 0\<rparr>
       = Inr (200, 3, \<lparr>rd = [''abcX''], writable = 0\<rparr>)
   \<and> conn_Read \<lparr>rd = [''abcX''], writable = 0\<rparr> (nat (3 + 1))
       = Some (''abc'' @ ''X'', \<lparr>rd = [[]], writable = 0\<rparr>)
   \<and> int (length ''abc'') = 3
   \<and> ReadResponse \<lparr>rd = [''200 3\<newline>abcX''], writable = 0\<rparr>
       = Response 200 ''abc'' \<lparr>rd = [[]], writable = 0\<rparr>"
proof -
  have f: "conn_Fscanf \<lparr>rd = [''200 3\<newline>abcX''], writable = 0\<rparr>
       = Inr (200, 3, \<lparr>rd = [''abcX''], writable = 0\<rparr>)"
    by code_simp
  have r: "conn_Read \<lparr>rd = [''abcX''], writable = 0\<rparr> (nat (3 + 1))
       = Some (''abc'' @ ''X'', \<lparr>rd = [[]], writable = 0\<rparr>)"
    by code_simp
  have l: "int (length ''abc'') = 3"
    by simp
  from terminator_unchecked [OF f r l] show ?thesis
    using f r by simp
qed
section \<open>Properties of the poll loop and the supervisor\<close>

subsection \<open>The example run\<close>

lemma ReadResponse_example_1:
  "ReadResponse \<lparr>rd = [''107 6\<newline>abc123\<newline>'', ''200 0\<newline>\<newline>'',
      ''200 68\<newline>Backend name Admin Health\<newline>web1_fe healthy Healthy\<newline>web2_fe sick Sick\<newline>\<newline>''], writable = 5\<rparr> = Response 107 ''abc123''
     \<lparr>rd = [[], ''200 0\<newline>\<newline>'', ''200 68\<newline>Backend name Admin Health\<newline>web1_fe healthy Healthy\<newline>web2_fe sick Sick\<newline>\<newline>''], writable = 5\<rparr>"
  by code_simp

lemma ReadResponse_example_2:
  "ReadResponse \<lparr>rd = [[], ''200 0\<newline>\<newline>'', ''200 68\<newline>Backend name Admin Health\<newline>web1_fe healthy Healthy\<newline>web2_fe sick Sick\<newline>\<newline>''], writable = 4\<rparr>
     = Response 200 [] \<lparr>rd = [[], ''200 68\<newline>Backend name Admin Health\<newline>web1_fe healthy Healthy\<newline>web2_fe sick Sick\<newline>\<newline>''], writable = 4\<rparr>"
  by code_simp

lemma ReadResponse_example_3:
  "ReadResponse \<lparr>rd = [[], ''200 68\<newline>Backend name Admin Health\<newline>web1_fe healthy Healthy\<newline>web2_fe sick Sick\<newline>\<newline>''], writable = 3\<rparr>
     = Response 200 listing \<lparr>rd = [[]], writable = 3\<rparr>"
  by code_simp

lemma ReadResponse_example_4:
  "ReadResponse \<lparr>rd = [[]], writable = 2\<rparr> = NoResponse"
  by code_simp

lemma EncodeToString_example:
  "EncodeToString ''abc123\<newline>s3cr3t\<newline>abc123\<newline>'' =
      ''6162633132330a7333637233740a6162633132330a''"
  by code_simp

lemma authenticate_example:
  "authenticate example_config example_conn =
       ([Recv 107,
         Write ''auth 6162633132330a7333637233740a6162633132330a\<newline>'' True,
         Recv 200],
        Inr (Some \<lparr>rd = [[], ''200 68\<newline>Backend name Admin Health\<newline>web1_fe healthy Healthy\<newline>web2_fe sick Sick\<newline>\<newline>''], writable = 4\<rparr>))"
  by (simp add: authenticate_def example_conn_def ReadResponse_example_1 CommandForSuccess_def Send_def
      ReadResponse_example_2 example_config_def EncodeToString_example newline_def)

lemma poll_example:
  "poll example_config \<lparr>rd = [[], ''200 68\<newline>Backend name Admin Health\<newline>web1_fe healthy Healthy\<newline>web2_fe sick Sick\<newline>\<newline>''], writable = 4\<rparr> Map.empty =
     ([Write ''backend.list\<newline>'' True, Recv 200, Sleep 15,
       Write ''backend.list\<newline>'' True, Recv (- 1)],
      [[''healthy''] \<mapsto> 1, [''sick''] \<mapsto> 1], None)"
proof -
  have p2: "poll cfg \<lparr>rd = [[]], writable = 3\<rparr> g =
      ([Write ''backend.list\<newline>'' True, Recv (- 1)], g, None)" for cfg g
    by (subst poll.simps) (simp add: Send_def ReadResponse_example_4 newline_def)
  show ?thesis
    by (subst poll.simps)
      (simp add: Send_def ReadResponse_example_3 aggregate_listing_None p2 example_config_def
        publish_def Set_gauge_def ValidString_states counts0_def newline_def)
qed

lemma main_example:
  "main example_config [None, Some example_conn, None] =
     ([Dial False, Sleep 5, Dial True, Recv 107,
       Write ''auth 6162633132330a7333637233740a6162633132330a\<newline>'' True,
       Recv 200, Write ''backend.list\<newline>'' True, Recv 200, Sleep 15,
       Write ''backend.list\<newline>'' True, Recv (- 1), Close, Sleep 5, Dial False],
      [[''healthy''] \<mapsto> 1, [''sick''] \<mapsto> 1], None)"
  by (simp add: main_def session_def authenticate_example poll_example)


subsection \<open>Authentication\<close>

text \<open>
  C3. On a connection whose first response has the code 107, the client takes the first
  line of the body as the challenge and writes the command \<^verbatim>\<open>auth\<close> with one argument,
  the hexadecimal text of the digest of the challenge, a newline, the secret, the
  challenge and a newline. The authentication succeeds (the connection goes on to the
  poll loop) exactly when the write succeeds and the response to \<^verbatim>\<open>auth\<close> has the code
  200; with any other code, or no response, the connection is given up.
\<close>

theorem auth_handshake:
  assumes "ReadResponse v = Response 107 resp v1"
  shows "let challenge = takeWhile (\<lambda>c. c \<noteq> newline) resp;
             line = ''auth ''
               @ EncodeToString (sha256 cfg (challenge @ [newline] @ secret cfg @ challenge @ [newline]))
               @ [newline]
         in (writable v1 = 0 \<longrightarrow> authenticate cfg v = ([Recv 107, Write line False], Inr None))
          \<and> (0 < writable v1 \<longrightarrow>
               (case ReadResponse (v1\<lparr>writable := writable v1 - 1\<rparr>) of
                  Panicked p \<Rightarrow> authenticate cfg v = ([Recv 107, Write line True], Inl p)
                | NoResponse \<Rightarrow>
                    authenticate cfg v = ([Recv 107, Write line True, Recv (- 1)], Inr None)
                | Response code body v2 \<Rightarrow>
                    authenticate cfg v =
                      ([Recv 107, Write line True, Recv code],
                       Inr (if code = 200 then Some v2 else None))))"
  using assms
  by (auto simp: authenticate_def CommandForSuccess_def Send_def Let_def split: response.splits)

theorem auth_handshake_witness:
  "ReadResponse example_conn = Response 107 ''abc123''
       \<lparr>rd = [[], ''200 0\<newline>\<newline>'',
              ''200 68\<newline>Backend name Admin Health\<newline>web1_fe healthy Healthy\<newline>web2_fe sick Sick\<newline>\<newline>''],
          writable = 5\<rparr>
   \<and> ReadResponse
        \<lparr>rd = [[], ''200 0\<newline>\<newline>'',
               ''200 68\<newline>Backend name Admin Health\<newline>web1_fe healthy Healthy\<newline>web2_fe sick Sick\<newline>\<newline>''],
           writable = 4\<rparr>
       = Response 200 []
           \<lparr>rd = [[], ''200 68\<newline>Backend name Admin Health\<newline>web1_fe healthy Healthy\<newline>web2_fe sick Sick\<newline>\<newline>''],
              writable = 4\<rparr>
   \<and> authenticate example_config example_conn =
       ([Recv 107,
         Write ''auth 6162633132330a7333637233740a6162633132330a\<newline>'' True,
         Recv 200],
        Inr (Some \<lparr>rd = [[], ''200 68\<newline>Backend name Admin Health\<newline>web1_fe healthy Healthy\<newline>web2_fe sick Sick\<newline>\<newline>''],
                    writable = 4\<rparr>))"
proof -
  have r1: "ReadResponse example_conn = Response 107 ''abc123''
       \<lparr>rd = [[], ''200 0\<newline>\<newline>'',
              ''200 68\<newline>Backend name Admin Health\<newline>web1_fe healthy Healthy\<newline>web2_fe sick Sick\<newline>\<newline>''],
          writable = 5\<rparr>"
    by (simp add: example_conn_def ReadResponse_example_1)
  from auth_handshake [OF r1, of example_config] show ?thesis
    using r1 ReadResponse_example_2
    by (simp add: Let_def example_config_def EncodeToString_example newline_def)
qed

subsection \<open>The order of the events\<close>

lemma Send_event:
  "Send v str args = (ev, err, v1) \<Longrightarrow>
     ev = Write (Join (str # args) '' '' @ [newline]) (0 < writable v)
     \<and> (err = None \<longleftrightarrow> 0 < writable v)
     \<and> v1 = (if 0 < writable v then v\<lparr>writable := writable v - 1\<rparr> else v)"
  by (auto simp: Send_def Let_def split: if_splits)

lemma poll_events:
  "poll cfg v g = (evs, g', p) \<Longrightarrow> Dial b \<notin> set evs"
proof (induction cfg v g arbitrary: evs g' p rule: poll.induct)
  case (1 cfg v g)
  obtain ev err v1 where s: "Send v ''backend.list'' [] = (ev, err, v1)"
    by (cases "Send v ''backend.list'' []") auto
  from Send_event [OF s] have ev: "ev \<noteq> Dial b" by auto
  show ?case
  proof (cases err)
    case (Some e)
    with "1.prems" s ev show ?thesis
      by (subst (asm) poll.simps) auto
  next
    case None
    note n = this
    show ?thesis
    proof (cases "ReadResponse v1")
      case (Panicked x)
      with "1.prems" s n ev show ?thesis
        by (subst (asm) poll.simps) auto
    next
      case NoResponse
      with "1.prems" s n ev show ?thesis
        by (subst (asm) poll.simps) auto
    next
      case (Response code resp v2)
      note r = this
      show ?thesis
      proof (cases "code = 200")
        case False
        with "1.prems" s n r ev show ?thesis
          by (subst (asm) poll.simps) auto
      next
        case True
        show ?thesis
        proof (cases "aggregate (directorRegexp cfg) resp")
          case (Inl x)
          with "1.prems" s n r True ev show ?thesis
            by (subst (asm) poll.simps) auto
        next
          case (Inr a)
          obtain g1 pp where pb: "publish (resetBackends cfg) (directorRegexp cfg) a g = (g1, pp)"
            by (cases "publish (resetBackends cfg) (directorRegexp cfg) a g") auto
          show ?thesis
          proof (cases pp)
            case (Some x)
            with "1.prems" s n r True Inr pb ev show ?thesis
              by (subst (asm) poll.simps) auto
          next
            case None
            note pn = this
            obtain evs1 g2 p2 where rec: "poll cfg v2 g1 = (evs1, g2, p2)"
              by (cases "poll cfg v2 g1") auto
            from s n have s': "Send v ''backend.list'' [] = (ev, None, v1)" by simp
            from pb pn have pb': "(g1, None) = publish (resetBackends cfg) (directorRegexp cfg) a g"
              by simp
            have "Dial b \<notin> set evs1"
              using "1.IH" [OF s' [symmetric] refl refl r _ Inr pb' refl rec] True by simp
            moreover from "1.prems" s n r True Inr pb pn rec
            have "evs = [ev, Recv code, Sleep (varnishInterval cfg)] @ evs1"
              by (subst (asm) poll.simps) auto
            ultimately show ?thesis
              using ev by auto
          qed
        qed
      qed
    qed
  qed
qed


lemma CommandForSuccess_events:
  assumes "CommandForSuccess v cmd args = (evs, r)"
  shows "\<exists>ok. (evs = [Write (Join (cmd # args) '' '' @ [newline]) ok]
                 \<and> (\<forall>v2. r \<noteq> Inr (Some v2)))
            \<or> (\<exists>code. evs = [Write (Join (cmd # args) '' '' @ [newline]) ok, Recv code]
                 \<and> (\<forall>v2. r = Inr (Some v2) \<longrightarrow> ok \<and> code = 200))"
proof -
  obtain ev err v1 where s: "Send v cmd args = (ev, err, v1)"
    by (cases "Send v cmd args") auto
  note e = Send_event [OF s]
  show ?thesis
  proof (cases err)
    case (Some x)
    with assms s e show ?thesis
      by (auto simp: CommandForSuccess_def)
  next
    case None
    with assms s e show ?thesis
      by (cases "ReadResponse v1") (auto simp: CommandForSuccess_def split: if_splits)
  qed
qed

lemma authenticate_events:
  assumes "authenticate cfg v = (evs, r)"
  shows "Dial b \<notin> set evs \<and> Write ''backend.list\<newline>'' ok \<notin> set evs
     \<and> (r = Inr (Some v2) \<longrightarrow>
          (\<exists>h. evs = [Recv 107, Write (''auth '' @ h @ [newline]) True, Recv 200]))"
proof (cases "ReadResponse v")
  case (Panicked x)
  with assms show ?thesis by (auto simp: authenticate_def)
next
  case NoResponse
  with assms show ?thesis by (auto simp: authenticate_def)
next
  case (Response code resp v1)
  show ?thesis
  proof (cases "code = 107")
    case False
    with assms Response show ?thesis by (auto simp: authenticate_def)
  next
    case True
    let ?h = "EncodeToString (sha256 cfg (takeWhile (\<lambda>c. c \<noteq> newline) resp @ [newline]
                @ secret cfg @ takeWhile (\<lambda>c. c \<noteq> newline) resp @ [newline]))"
    obtain evs1 r1 where c: "CommandForSuccess v1 ''auth'' [?h] = (evs1, r1)"
      by (cases "CommandForSuccess v1 ''auth'' [?h]") auto
    from assms Response True c have evs: "evs = Recv 107 # evs1" and r: "r = r1"
      by (auto simp: authenticate_def Let_def)
    from CommandForSuccess_events [OF c] evs r show ?thesis
      by auto
  qed
qed

lemma session_events:
  assumes "session cfg v g = (evs, g', p)"
  shows "Dial b \<notin> set evs
     \<and> (Write ''backend.list\<newline>'' ok \<in> set evs \<longrightarrow>
          (\<exists>h rest. evs = [Recv 107, Write (''auth '' @ h @ [newline]) True, Recv 200] @ rest))"
proof -
  obtain evs1 r where a: "authenticate cfg v = (evs1, r)"
    by (cases "authenticate cfg v") auto
  show ?thesis
  proof (cases r)
    case (Inl x)
    with assms a authenticate_events [OF a, of b ok] show ?thesis
      by (auto simp: session_def)
  next
    case (Inr c)
    show ?thesis
    proof (cases c)
      case None
      with assms a Inr authenticate_events [OF a, of b ok] show ?thesis
        by (auto simp: session_def)
    next
      case (Some v2)
      obtain evs2 g2 p2 where q: "poll cfg v2 g = (evs2, g2, p2)"
        by (cases "poll cfg v2 g") auto
      from assms a Inr Some q have "evs = evs1 @ evs2 @ [Close] \<or> evs = evs1 @ evs2"
        by (auto simp: session_def split: option.splits)
      with authenticate_events [OF a, of b ok v2] Inr Some poll_events [OF q, of b] show ?thesis
        by auto
    qed
  qed
qed

lemma split_append:
  "xs @ ys = pre @ w # post \<Longrightarrow>
     (\<exists>q. xs = pre @ w # q \<and> post = q @ ys) \<or> (\<exists>q. pre = xs @ q \<and> ys = q @ w # post)"
  by (auto simp: append_eq_append_conv2 append_eq_Cons_conv)

lemma main_loop_step:
  assumes "main_loop cfg first (d # ds) g = (tr, g', p)"
  shows "\<exists>ev evs g1 p1. tr = (if first then [] else [Sleep 5]) @ Dial (d \<noteq> None) # ev @ evs
     \<and> (case d of None \<Rightarrow> ev = [] | Some v \<Rightarrow> session cfg v g = (ev, g1, p1))
     \<and> (evs = [] \<or> main_loop cfg False ds g1 = (evs, g', p))"
proof (cases d)
  case None
  obtain evs g2 p2 where m: "main_loop cfg False ds g = (evs, g2, p2)"
    by (cases "main_loop cfg False ds g") auto
  with assms None show ?thesis
    by (auto simp: Let_def)
next
  case (Some v)
  obtain ev g1 p1 where s: "session cfg v g = (ev, g1, p1)"
    by (cases "session cfg v g") auto
  show ?thesis
  proof (cases p1)
    case None
    obtain evs g2 p2 where m: "main_loop cfg False ds g1 = (evs, g2, p2)"
      by (cases "main_loop cfg False ds g1") auto
    with assms Some s None show ?thesis
      by (auto simp: Let_def)
  next
    case (Some x)
    with assms \<open>d = Some v\<close> s show ?thesis
      by (auto simp: Let_def)
  qed
qed


lemma main_loop_dials:
  "main_loop cfg first ds g = (tr, g', p) \<Longrightarrow> tr = pre @ Dial b # post \<Longrightarrow>
     (first \<and> pre = []) \<or> (\<exists>pre'. pre = pre' @ [Sleep 5])"
proof (induction ds arbitrary: first g tr pre)
  case Nil
  then show ?case by simp
next
  case (Cons d ds)
  let ?pre0 = "if first then [] else [Sleep 5]"
  from main_loop_step [OF Cons.prems(1)] obtain ev evs g1 p1
    where tr: "tr = ?pre0 @ Dial (d \<noteq> None) # ev @ evs"
      and ev: "case d of None \<Rightarrow> ev = [] | Some v \<Rightarrow> session cfg v g = (ev, g1, p1)"
      and evs: "evs = [] \<or> main_loop cfg False ds g1 = (evs, g', p)"
    by blast
  from ev have nodial: "Dial b \<notin> set ev"
    by (cases d) (auto dest: session_events)
  from tr Cons.prems(2) have "(?pre0 @ Dial (d \<noteq> None) # ev) @ evs = pre @ Dial b # post"
    by simp
  from split_append [OF this] show ?case
  proof
    assume "\<exists>q. ?pre0 @ Dial (d \<noteq> None) # ev = pre @ Dial b # q \<and> post = q @ evs"
    then obtain q where q: "?pre0 @ Dial (d \<noteq> None) # ev = pre @ Dial b # q"
      by blast
    with nodial have "pre = ?pre0"
      by (cases first) (auto simp: append_eq_append_conv2 append_eq_Cons_conv Cons_eq_append_conv)
    then show ?thesis
      by (cases first) auto
  next
    assume "\<exists>q. pre = (?pre0 @ Dial (d \<noteq> None) # ev) @ q \<and> evs = q @ Dial b # post"
    then obtain q where pre: "pre = (?pre0 @ Dial (d \<noteq> None) # ev) @ q"
      and q: "evs = q @ Dial b # post"
      by blast
    from q evs have "main_loop cfg False ds g1 = (evs, g', p)" by auto
    from Cons.IH [OF this q] obtain pre' where "q = pre' @ [Sleep 5]"
      by auto
    with pre show ?thesis by auto
  qed
qed

lemma main_loop_polls:
  "main_loop cfg first ds g = (tr, g', p) \<Longrightarrow> tr = pre @ Write ''backend.list\<newline>'' ok # post \<Longrightarrow>
     \<exists>p1 h p2. pre = p1 @ [Dial True, Recv 107, Write (''auth '' @ h @ [newline]) True, Recv 200] @ p2
        \<and> (\<forall>b. Dial b \<notin> set p2)"
proof (induction ds arbitrary: first g tr pre)
  case Nil
  then show ?case by simp
next
  case (Cons d ds)
  let ?pre0 = "if first then [] else [Sleep 5]"
  let ?w = "Write ''backend.list\<newline>'' ok"
  from main_loop_step [OF Cons.prems(1)] obtain ev evs g1 p1
    where tr: "tr = ?pre0 @ Dial (d \<noteq> None) # ev @ evs"
      and ev: "case d of None \<Rightarrow> ev = [] | Some v \<Rightarrow> session cfg v g = (ev, g1, p1)"
      and evs: "evs = [] \<or> main_loop cfg False ds g1 = (evs, g', p)"
    by blast
  from tr Cons.prems(2) have "(?pre0 @ Dial (d \<noteq> None) # ev) @ evs = pre @ ?w # post"
    by simp
  from split_append [OF this] show ?case
  proof
    assume "\<exists>q. ?pre0 @ Dial (d \<noteq> None) # ev = pre @ ?w # q \<and> post = q @ evs"
    then obtain q where q: "?pre0 @ Dial (d \<noteq> None) # ev = pre @ ?w # q"
      by blast
    then have "?w \<in> set (?pre0 @ Dial (d \<noteq> None) # ev)"
      by simp
    then have win: "?w \<in> set ev"
      by (auto split: if_splits)
    with ev obtain v where d: "d = Some v" and s: "session cfg v g = (ev, g1, p1)"
      by (cases d) auto
    from session_events [OF s] win obtain h rest
      where evh: "ev = [Recv 107, Write (''auth '' @ h @ [newline]) True, Recv 200] @ rest"
      by blast
    from session_events [OF s] have nodial: "\<forall>b. Dial b \<notin> set ev"
      by blast
    let ?hd = "?pre0 @ [Dial True, Recv 107, Write (''auth '' @ h @ [newline]) True, Recv 200]"
    from q d evh have "?hd @ rest = pre @ ?w # q"
      by simp
    from split_append [OF this] show ?thesis
    proof
      assume "\<exists>q'. ?hd = pre @ ?w # q' \<and> q = q' @ rest"
      then have "?w \<in> set ?hd"
        by (metis in_set_conv_decomp)
      then show ?thesis
        by (auto split: if_splits)
    next
      assume "\<exists>q'. pre = ?hd @ q' \<and> rest = q' @ ?w # q"
      then obtain q' where pre: "pre = ?hd @ q'" and rest: "rest = q' @ ?w # q"
        by blast
      from nodial evh rest have "\<forall>b. Dial b \<notin> set q'"
        by auto
      with pre show ?thesis
        by (intro exI [of _ ?pre0] exI [of _ h] exI [of _ q']) simp
    qed
  next
    assume "\<exists>q. pre = (?pre0 @ Dial (d \<noteq> None) # ev) @ q \<and> evs = q @ ?w # post"
    then obtain q where pre: "pre = (?pre0 @ Dial (d \<noteq> None) # ev) @ q"
      and q: "evs = q @ ?w # post"
      by blast
    from q evs have "main_loop cfg False ds g1 = (evs, g', p)" by auto
    from Cons.IH [OF this q] obtain p1 h p2
      where "q = p1 @ [Dial True, Recv 107, Write (''auth '' @ h @ [newline]) True, Recv 200] @ p2"
        and "\<forall>b. Dial b \<notin> set p2"
      by blast
    with pre show ?thesis
      by (intro exI [of _ "(?pre0 @ Dial (d \<noteq> None) # ev) @ p1"] exI [of _ h] exI [of _ p2]) simp
  qed
qed

text \<open>
  C7. In the events of a run of the supervisor loop, every call of \<^verbatim>\<open>net.DialTCP\<close> but
  the first event of the run comes right after a sleep of 5 seconds; and before every
  write of \<^verbatim>\<open>backend.list\<close> the last call of \<^verbatim>\<open>net.DialTCP\<close> gave a connection, on which
  the code 107 was received, then the command \<^verbatim>\<open>auth\<close> was written and the code 200
  received.
\<close>

theorem supervisor_trace:
  assumes "main cfg ds = (tr, g, p)"
  shows "(\<forall>pre b post. tr = pre @ Dial b # post \<longrightarrow> pre = [] \<or> (\<exists>pre'. pre = pre' @ [Sleep 5]))
     \<and> (\<forall>pre ok post. tr = pre @ Write ''backend.list\<newline>'' ok # post \<longrightarrow>
          (\<exists>p1 h p2. pre = p1 @ [Dial True, Recv 107, Write (''auth '' @ h @ [newline]) True, Recv 200] @ p2
             \<and> (\<forall>b. Dial b \<notin> set p2)))"
proof (intro conjI allI impI)
  fix pre b post
  assume "tr = pre @ Dial b # post"
  with assms main_loop_dials [of cfg True ds Map.empty tr g p pre b post]
  show "pre = [] \<or> (\<exists>pre'. pre = pre' @ [Sleep 5])"
    by (auto simp: main_def)
next
  fix pre ok post
  assume "tr = pre @ Write ''backend.list\<newline>'' ok # post"
  with assms main_loop_polls [of cfg True ds Map.empty tr g p pre ok post]
  show "\<exists>p1 h p2. pre = p1 @ [Dial True, Recv 107, Write (''auth '' @ h @ [newline]) True, Recv 200] @ p2
             \<and> (\<forall>b. Dial b \<notin> set p2)"
    by (simp add: main_def)
qed


theorem supervisor_trace_witness:
  "main example_config [None, Some example_conn, None] =
     ([Dial False, Sleep 5, Dial True, Recv 107,
       Write ''auth 6162633132330a7333637233740a6162633132330a\<newline>'' True,
       Recv 200, Write ''backend.list\<newline>'' True, Recv 200, Sleep 15,
       Write ''backend.list\<newline>'' True, Recv (- 1), Close, Sleep 5, Dial False],
      [[''healthy''] \<mapsto> 1, [''sick''] \<mapsto> 1], None)
   \<and> (\<exists>pre'. [Dial False, Sleep 5, Dial True, Recv 107,
          Write ''auth 6162633132330a7333637233740a6162633132330a\<newline>'' True,
          Recv 200, Write ''backend.list\<newline>'' True, Recv 200, Sleep 15,
          Write ''backend.list\<newline>'' True, Recv (- 1), Close, Sleep 5] = pre' @ [Sleep 5])
   \<and> (\<exists>p1 h p2.
        [Dial False, Sleep 5, Dial True, Recv 107,
         Write ''auth 6162633132330a7333637233740a6162633132330a\<newline>'' True,
         Recv 200, Write ''backend.list\<newline>'' True, Recv 200, Sleep 15]
        = p1 @ [Dial True, Recv 107, Write (''auth '' @ h @ [newline]) True, Recv 200] @ p2
        \<and> (\<forall>b. Dial b \<notin> set p2))"
proof -
  let ?auth = "Write ''auth 6162633132330a7333637233740a6162633132330a\<newline>'' True"
  let ?list = "Write ''backend.list\<newline>'' True"
  let ?tr = "[Dial False, Sleep 5, Dial True, Recv 107, ?auth, Recv 200, ?list, Recv 200, Sleep 15,
       ?list, Recv (- 1), Close, Sleep 5, Dial False]"
  note t = supervisor_trace [OF main_example]
  have 1: "?tr = [Dial False, Sleep 5, Dial True, Recv 107, ?auth, Recv 200, ?list, Recv 200,
      Sleep 15, ?list, Recv (- 1), Close, Sleep 5] @ Dial False # []"
    by simp
  have 2: "?tr = [Dial False, Sleep 5, Dial True, Recv 107, ?auth, Recv 200, ?list, Recv 200,
      Sleep 15] @ ?list # [Recv (- 1), Close, Sleep 5, Dial False]"
    by simp
  from t 1 have "[Dial False, Sleep 5, Dial True, Recv 107, ?auth, Recv 200, ?list, Recv 200,
      Sleep 15, ?list, Recv (- 1), Close, Sleep 5] = []
    \<or> (\<exists>pre'. [Dial False, Sleep 5, Dial True, Recv 107, ?auth, Recv 200, ?list, Recv 200,
      Sleep 15, ?list, Recv (- 1), Close, Sleep 5] = pre' @ [Sleep 5])"
    by blast
  moreover from t 2 have "\<exists>p1 h p2.
        [Dial False, Sleep 5, Dial True, Recv 107, ?auth, Recv 200, ?list, Recv 200, Sleep 15]
        = p1 @ [Dial True, Recv 107, Write (''auth '' @ h @ [newline]) True, Recv 200] @ p2
        \<and> (\<forall>b. Dial b \<notin> set p2)"
    by blast
  ultimately show ?thesis
    using main_example by simp
qed

subsection \<open>Malformed lines\<close>

lemma ReadResponse_blank_1:
  "ReadResponse \<lparr>rd = [''107 6\<newline>abc123\<newline>'', ''200 0\<newline>\<newline>'',
      ''200 51\<newline>Backend name Admin Health\<newline>\<newline>web2_fe healthy Healthy\<newline>\<newline>''], writable = 5\<rparr>
   = Response 107 ''abc123'' \<lparr>rd = [[], ''200 0\<newline>\<newline>'',
      ''200 51\<newline>Backend name Admin Health\<newline>\<newline>web2_fe healthy Healthy\<newline>\<newline>''], writable = 5\<rparr>"
  by code_simp

lemma ReadResponse_blank_2:
  "ReadResponse \<lparr>rd = [[], ''200 0\<newline>\<newline>'',
      ''200 51\<newline>Backend name Admin Health\<newline>\<newline>web2_fe healthy Healthy\<newline>\<newline>''], writable = 4\<rparr>
   = Response 200 [] \<lparr>rd = [[],
      ''200 51\<newline>Backend name Admin Health\<newline>\<newline>web2_fe healthy Healthy\<newline>\<newline>''], writable = 4\<rparr>"
  by code_simp

lemma ReadResponse_blank_3:
  "ReadResponse \<lparr>rd = [[],
      ''200 51\<newline>Backend name Admin Health\<newline>\<newline>web2_fe healthy Healthy\<newline>\<newline>''], writable = 3\<rparr>
   = Response 200 ''Backend name Admin Health\<newline>\<newline>web2_fe healthy Healthy\<newline>'' \<lparr>rd = [[]], writable = 3\<rparr>"
  by code_simp

lemma aggregate_blank:
  "aggregate None ''Backend name Admin Health\<newline>\<newline>web2_fe healthy Healthy\<newline>'' = Inl IndexOutOfRange"
  by (simp add: aggregate_def scan_lines.simps MaxScanTokenSize_def dropCR_def scan_line_def
      HasPrefix_def Fields.simps asciiSpace_def is_healthy_def index_def)

lemma main_blank:
  "main example_config [Some blank_line_conn, None] =
     ([Dial True, Recv 107,
       Write ''auth 6162633132330a7333637233740a6162633132330a\<newline>'' True,
       Recv 200, Write ''backend.list\<newline>'' True, Recv 200],
      Map.empty, Some IndexOutOfRange)"
proof -
  have a: "authenticate example_config blank_line_conn =
       ([Recv 107,
         Write ''auth 6162633132330a7333637233740a6162633132330a\<newline>'' True,
         Recv 200],
        Inr (Some \<lparr>rd = [[],
      ''200 51\<newline>Backend name Admin Health\<newline>\<newline>web2_fe healthy Healthy\<newline>\<newline>''], writable = 4\<rparr>))"
    by (simp add: authenticate_def blank_line_conn_def ReadResponse_blank_1 CommandForSuccess_def
        Send_def ReadResponse_blank_2 example_config_def EncodeToString_example newline_def)
  have p: "poll example_config \<lparr>rd = [[],
      ''200 51\<newline>Backend name Admin Health\<newline>\<newline>web2_fe healthy Healthy\<newline>\<newline>''], writable = 4\<rparr> Map.empty =
     ([Write ''backend.list\<newline>'' True, Recv 200], Map.empty, Some IndexOutOfRange)"
    by (subst poll.simps)
      (simp add: Send_def ReadResponse_blank_3 aggregate_blank example_config_def newline_def)
  show ?thesis
    by (simp add: main_def session_def a p)
qed


subsection \<open>A label that is not valid UTF-8\<close>

lemma ReadResponse_invalid_label:
  "ReadResponse (invalid_label_conn\<lparr>writable := 0\<rparr>) =
     Response 200 listing4 \<lparr>rd = [[]], writable = 0\<rparr>"
  by code_simp

text \<open>
  A run of the poll loop on a listing with a backend name that is not valid UTF-8, with
  the pattern of the README: the label of the name is not valid UTF-8, and the cycle
  ends the program when it publishes.
\<close>

lemma poll_invalid_label:
  "poll grouped_config invalid_label_conn Map.empty =
     ([Write ''backend.list\<newline>'' True, Recv 200], Map.empty, Some InvalidLabelValue)"
proof -
  have w: "writable invalid_label_conn = 1"
    by (simp add: invalid_label_conn_def)
  have c: "directorRegexp grouped_config = Some suffix_regexp" "\<not> resetBackends grouped_config"
    by (simp_all add: grouped_config_def)
  have p: "publish False (Some suffix_regexp)
      (counts0\<lparr>labelall := [[CHR 0xFE], ''fe''], labelhealthy := [''fe'' \<mapsto> 1, [CHR 0xFE] \<mapsto> 1]\<rparr>)
      Map.empty = (Map.empty, Some InvalidLabelValue)"
    by (simp add: publish_def Set_gauge_def ValidString_states ValidString_examples counts0_def)
  show ?thesis
    by (subst poll.simps)
      (simp add: Send_def w c ReadResponse_invalid_label aggregate_listing4 p newline_def)
qed


text \<open>
  C2. A line with fewer than three fields is not counted as sick: reading a field the
  line does not have is a run-time panic, which ends the cycle and the program with
  nothing published; the lines after it are not read. Here a line of two fields whose
  second field is not \<^verbatim>\<open>sick\<close>, then an empty line without and with a pattern, then a
  run of the program on a connection whose listing has an empty line.
\<close>

theorem short_line_panics:
  "aggregate None ''Backend name Admin Health\<newline>web1_fe healthy\<newline>web2_fe healthy Healthy\<newline>''
     = Inl IndexOutOfRange
   \<and> aggregate None ''Backend name Admin Health\<newline>\<newline>web2_fe healthy Healthy\<newline>''
     = Inl IndexOutOfRange
   \<and> aggregate (Some suffix_regexp) ''Backend name Admin Health\<newline>\<newline>web2_fe healthy Healthy\<newline>''
     = Inl IndexOutOfRange
   \<and> main example_config [Some blank_line_conn, None] =
     ([Dial True, Recv 107,
       Write ''auth 6162633132330a7333637233740a6162633132330a\<newline>'' True,
       Recv 200, Write ''backend.list\<newline>'' True, Recv 200],
      Map.empty, Some IndexOutOfRange)"
proof -
  have "aggregate None ''Backend name Admin Health\<newline>web1_fe healthy\<newline>web2_fe healthy Healthy\<newline>''
     = Inl IndexOutOfRange"
    by (simp add: aggregate_def scan_lines.simps MaxScanTokenSize_def dropCR_def scan_line_def
        HasPrefix_def Fields.simps asciiSpace_def is_healthy_def index_def)
  moreover have "aggregate (Some suffix_regexp) ''Backend name Admin Health\<newline>\<newline>web2_fe healthy Healthy\<newline>''
     = Inl IndexOutOfRange"
    by (simp add: aggregate_def scan_lines.simps MaxScanTokenSize_def dropCR_def scan_line_def
        HasPrefix_def Fields.simps asciiSpace_def is_healthy_def index_def)
  ultimately show ?thesis
    using aggregate_blank main_blank by simp
qed

end
